theory Spec2Isabelle
  imports Main "HOL-Library.Char_ord" "HOL-Library.List_Lexorder" "HOL-Library.Word"
begin

section \<open>The pipeline block of \<open>examples/pipeline/src/common/Block.cpp\<close>\<close>

subsection \<open>Machine integers\<close>

text \<open>
  \<open>size_t\<close> is a 64-bit word; comparisons of sizes are unsigned. An \<open>int\<close> counter that starts
  at 0 and is only incremented is kept as a natural number up to \<open>INT_MAX\<close>; incrementing it
  at \<open>INT_MAX\<close> is written out as a failure of its own.
\<close>

type_synonym size_t = "64 word"

definition INT_MAX :: nat where
  "INT_MAX = 2147483647"

subsection \<open>Element types, endpoints and units of work\<close>

text \<open>
  \<open>std::type_index\<close>: the six element types that \<open>Block.cpp\<close> compares against
  (\<open>typeid(int8_t)\<close> ... \<open>typeid(double)\<close>), and any other C++ type, identified by a label.
\<close>

datatype type_index =
  T_int8 | T_int16 | T_int32 | T_int64 | T_float | T_double | T_other string

text \<open>The six element types for which the block has a channel class.\<close>

definition supported :: "type_index \<Rightarrow> bool" where
  "supported T = (T \<in> {T_int8, T_int16, T_int32, T_int64, T_float, T_double})"

text \<open>
  Modelled from the spec: the library's table \<open>aff3ct::module::type_to_string\<close>, which is not
  part of the sources. The six element kinds carry the names that the constructor compares
  against (int8, int16, int32, int64, float32, float64); a type that is not in the table has
  the empty name, which is what \<open>operator[]\<close> of a standard map yields for an absent key.
\<close>

fun type_to_string :: "type_index \<Rightarrow> string" where
  "type_to_string T_int8 = ''int8''"
| "type_to_string T_int16 = ''int16''"
| "type_to_string T_int32 = ''int32''"
| "type_to_string T_int64 = ''int64''"
| "type_to_string T_float = ''float32''"
| "type_to_string T_double = ''float64''"
| "type_to_string (T_other l) = ''''"

text \<open>
  Modelled from the spec: the direction of an endpoint (\<open>aff3ct::module::socket_t\<close>), input or
  output. The block only ever tests a direction for equality with \<open>SIN\<close>.
\<close>

datatype socket_t = SIN | SOUT

text \<open>
  Modelled from the spec: the endpoint descriptor (\<open>aff3ct::module::Socket\<close>) with the three
  attributes the block reads: \<open>get_name()\<close>, \<open>get_datatype()\<close> and the direction that
  \<open>Task::get_socket_type\<close> reports for it.
\<close>

record Socket =
  sck_name :: string
  sck_datatype :: type_index
  sck_type :: socket_t

definition get_datatype_string :: "Socket \<Rightarrow> string" where
  "get_datatype_string s = type_to_string (sck_datatype s)"

text \<open>
  Modelled from the spec: the unit of work (\<open>aff3ct::module::Task\<close>): its name, its ordered
  endpoints and the three flags that the block switches off. \<open>clone()\<close> yields an independent
  replica, which in a value model is the same record again.
\<close>

record Task =
  task_name :: string
  sockets :: "Socket list"
  autoalloc :: bool
  autoexec :: bool
  fast :: bool

definition clone :: "Task \<Rightarrow> Task" where
  "clone t = t"

definition set_autoalloc :: "bool \<Rightarrow> Task \<Rightarrow> Task" where
  "set_autoalloc b t = t\<lparr>autoalloc := b\<rparr>"

definition set_autoexec :: "bool \<Rightarrow> Task \<Rightarrow> Task" where
  "set_autoexec b t = t\<lparr>autoexec := b\<rparr>"

definition set_fast :: "bool \<Rightarrow> Task \<Rightarrow> Task" where
  "set_fast b t = t\<lparr>fast := b\<rparr>"

definition get_socket_type :: "Task \<Rightarrow> Socket \<Rightarrow> socket_t" where
  "get_socket_type t s = sck_type s"

subsection \<open>Channels\<close>

text \<open>
  Modelled from the spec: the channel class of \<open>Buffered_Socket.hpp\<close>, which is not part of
  the sources. A channel holds what the constructor call
  \<open>new Buffered_Socket<T>(s_vec, stype, buffer_size)\<close> passes in: the element type \<open>T\<close>
  (the channel's type tag, fixed at construction, returned by \<open>get_datatype()\<close> and by
  \<open>get_socket()->get_datatype()\<close>), the endpoint of every replica, the direction and the
  capacity. It also holds the identity of the buffer it moves its items through. A channel
  is created with a buffer of its own, named after the block that creates it (the address of
  the block) and the index of the endpoint it is created for.
\<close>

type_synonym buffer_id = "nat \<times> nat"

record Buffered_Socket =
  bs_datatype :: type_index
  bs_sockets :: "Socket list"
  bs_sockets_type :: socket_t
  bs_buffer_size :: size_t
  bs_buffer :: buffer_id

definition new_Buffered_Socket ::
  "type_index \<Rightarrow> Socket list \<Rightarrow> socket_t \<Rightarrow> size_t \<Rightarrow> buffer_id \<Rightarrow> Buffered_Socket" where
  "new_Buffered_Socket T s_vec stype buffer_size' buf =
     \<lparr>bs_datatype = T, bs_sockets = s_vec, bs_sockets_type = stype,
      bs_buffer_size = buffer_size', bs_buffer = buf\<rparr>"

text \<open>
  Modelled from the spec: \<open>Buffered_Socket<T>::bind\<close>, which connects the receiving input
  channel to read directly from the given output channel: the two channels become the same
  physical buffer. Only the receiver changes.
\<close>

definition Buffered_Socket_bind :: "Buffered_Socket \<Rightarrow> Buffered_Socket \<Rightarrow> Buffered_Socket" where
  "Buffered_Socket_bind sin sout = sin\<lparr>bs_buffer := bs_buffer sout\<rparr>"

text \<open>
  Modelled from the spec: the contents of the buffers, each a queue of items in the order in
  which they were pushed, and the two data operations of a channel. \<open>push\<close> moves the item
  in the producing replica's endpoint storage into the channel's buffer unless the buffer
  holds as many items as the channel's capacity; \<open>pop\<close> moves the oldest item of the
  channel's buffer into the consuming replica's endpoint storage unless the buffer is empty.
  The result is \<open>None\<close> when nothing is moved. Items are delivered in the order of the
  pushes whichever thread index pushes or pops, so the index is left out.
\<close>

type_synonym 'v buffers = "buffer_id \<Rightarrow> 'v list"

definition Buffered_Socket_push :: "Buffered_Socket \<Rightarrow> 'v \<Rightarrow> 'v buffers \<Rightarrow> 'v buffers option" where
  "Buffered_Socket_push s x bufs =
     (if length (bufs (bs_buffer s)) < unat (bs_buffer_size s)
      then Some (bufs(bs_buffer s := bufs (bs_buffer s) @ [x]))
      else None)"

definition Buffered_Socket_pop :: "Buffered_Socket \<Rightarrow> 'v buffers \<Rightarrow> ('v \<times> 'v buffers) option" where
  "Buffered_Socket_pop s bufs =
     (case bufs (bs_buffer s) of
        [] \<Rightarrow> None
      | x # q \<Rightarrow> Some (x, bufs(bs_buffer s := q)))"

subsection \<open>Standard maps keyed by strings\<close>

text \<open>
  \<open>std::map<std::string, V>\<close> as an association list in ascending key order, the order in
  which the map is iterated. \<open>map_count\<close> is \<open>count\<close>, \<open>map_assign\<close> is \<open>m[k] = v\<close>.
\<close>

type_synonym 'v std_map = "(string \<times> 'v) list"

definition map_count :: "'v std_map \<Rightarrow> string \<Rightarrow> nat" where
  "map_count m k = (case map_of m k of None \<Rightarrow> 0 | Some v \<Rightarrow> 1)"

fun map_assign :: "string \<Rightarrow> 'v \<Rightarrow> 'v std_map \<Rightarrow> 'v std_map" where
  "map_assign k v [] = [(k, v)]"
| "map_assign k v ((k', v') # m) =
     (if k = k' then (k, v) # m
      else if k < k' then (k, v) # (k', v') # m
      else (k', v') # map_assign k v m)"

subsection \<open>Errors\<close>

text \<open>
  The two exception classes that the block throws, each with the message it is thrown with.
  A message is kept as its wording's identity and the values printed into it. The standard
  library throws \<open>length_error\<close> and \<open>bad_alloc\<close> when a vector cannot be made.
  \<open>signed_overflow\<close> is no exception: it marks a run that increments an \<open>int\<close> counter at
  \<open>INT_MAX\<close>, for which the language defines no behaviour.
\<close>

datatype message =
  N_threads_not_positive nat
| Buffer_size_too_small nat nat
| Count_start_sck_name string nat
| Count_name socket_t string nat
| Datatype_not_equal socket_t string string string
| Should_not_happen

datatype error =
  invalid_argument message | runtime_error message
| length_error | bad_alloc | signed_overflow

text \<open>The error kinds by which the specification names these failures.\<close>

datatype error_kind = InvalidArgument | NotFound | TypeMismatch | Unreachable

fun kind_of :: "error \<Rightarrow> error_kind option" where
  "kind_of (invalid_argument (N_threads_not_positive n)) = Some InvalidArgument"
| "kind_of (invalid_argument (Buffer_size_too_small b n)) = Some InvalidArgument"
| "kind_of (runtime_error (Count_start_sck_name k c)) = Some NotFound"
| "kind_of (runtime_error (Count_name d k c)) = Some NotFound"
| "kind_of (runtime_error (Datatype_not_equal d k a b)) = Some TypeMismatch"
| "kind_of (runtime_error Should_not_happen) = Some Unreachable"
| "kind_of e = None"

subsection \<open>The block and its construction\<close>

record Block =
  address :: nat
  name :: string
  n_threads :: size_t
  buffer_size :: size_t
  threads :: nat
  tasks :: "Task list"
  buffered_sockets_in :: "Buffered_Socket std_map"
  buffered_sockets_out :: "Buffered_Socket std_map"

text \<open>
  \<open>address\<close> is where the block lives (\<open>this\<close>); \<open>threads\<close>, a vector of thread handles, is
  kept as its length.

  What the constructor needs of the machine it runs on: the largest length that a vector of
  thread handles may have (\<open>max_size()\<close>), and the number of thread handles for which the
  allocator has room when the block is constructed.
\<close>

record machine =
  vector_max_size :: nat
  thread_room :: nat

text \<open>
  The member initialiser \<open>threads(n_threads)\<close>: the standard vector of \<open>n_threads\<close> handles,
  which throws when that is more than a vector may hold or more than the allocator has room
  for.
\<close>

definition new_threads :: "machine \<Rightarrow> size_t \<Rightarrow> error + nat" where
  "new_threads M n =
     (if vector_max_size M < unat n then Inl length_error
      else if thread_room M < unat n then Inl bad_alloc
      else Inr (unat n))"

text \<open>
  The loop \<open>for (int i = 0; i < n; i++) vec.push_back(body(i))\<close> with \<open>n\<close> a \<open>size_t\<close>, from the
  counter value \<open>i\<close> on: the comparison converts \<open>i\<close> to \<open>size_t\<close>.
\<close>

function for_int :: "nat \<Rightarrow> size_t \<Rightarrow> (nat \<Rightarrow> 'a) \<Rightarrow> 'a list \<Rightarrow> error + 'a list" where
  "for_int i n body vec =
     (if i \<le> INT_MAX \<and> of_nat i < n
      then (if i = INT_MAX then Inl signed_overflow
            else for_int (Suc i) n body (vec @ [body i]))
      else Inr vec)"
  by pat_completeness auto
termination
  by (relation "measure (\<lambda>(i, n, body, vec). Suc INT_MAX - i)") auto

declare for_int.simps [simp del]

text \<open>
  The calls that construction makes on the unit of work and on the channel class, in the
  order in which it makes them. \<open>New_Buffered_Socket i T\<close> is the creation of a channel of
  element type \<open>T\<close> for the endpoint at index \<open>i\<close>.
\<close>

datatype call =
  Clone | Set_autoalloc bool | Set_autoexec bool | Set_fast bool
| New_Buffered_Socket nat type_index

text \<open>The two closures \<open>add_socket\<close> of the constructor, chosen by the direction.\<close>

definition add_socket :: "socket_t \<Rightarrow> string \<Rightarrow> Buffered_Socket \<Rightarrow> Block \<Rightarrow> Block" where
  "add_socket stype sname socket blk =
     (if stype = SIN
      then blk\<lparr>buffered_sockets_in := map_assign sname socket (buffered_sockets_in blk)\<rparr>
      else blk\<lparr>buffered_sockets_out := map_assign sname socket (buffered_sockets_out blk)\<rparr>)"

text \<open>One round of the loop over \<open>task.sockets\<close>, at index \<open>s_idx\<close>.\<close>

definition ctor_socket :: "Task \<Rightarrow> nat \<Rightarrow> Block \<Rightarrow> error + call list \<times> Block" where
  "ctor_socket task s_idx blk =
     (case for_int 0 (n_threads blk) (\<lambda>i. sockets (tasks blk ! i) ! s_idx) [] of
        Inl e \<Rightarrow> Inl e
      | Inr s_vec \<Rightarrow>
          Inr (let s = sockets task ! s_idx;
                   sdatatype = get_datatype_string s;
                   sname = sck_name s;
                   stype = get_socket_type task s;
                   create = (\<lambda>T. ([New_Buffered_Socket s_idx T],
                               add_socket stype sname
                                 (new_Buffered_Socket T s_vec stype (buffer_size blk)
                                    (address blk, s_idx)) blk))
               in if sdatatype = ''int8'' then create T_int8
                  else if sdatatype = ''int16'' then create T_int16
                  else if sdatatype = ''int32'' then create T_int32
                  else if sdatatype = ''int64'' then create T_int64
                  else if sdatatype = ''float32'' then create T_float
                  else if sdatatype = ''float64'' then create T_double
                  else ([], blk)))"

fun ctor_sockets :: "Task \<Rightarrow> nat list \<Rightarrow> Block \<Rightarrow> error + call list \<times> Block" where
  "ctor_sockets task [] blk = Inr ([], blk)"
| "ctor_sockets task (s_idx # rest) blk =
     (case ctor_socket task s_idx blk of
        Inl e \<Rightarrow> Inl e
      | Inr (calls, blk') \<Rightarrow>
          (case ctor_sockets task rest blk' of
             Inl e \<Rightarrow> Inl e
           | Inr (calls', blk'') \<Rightarrow> Inr (calls @ calls', blk'')))"

text \<open>
  \<open>Block::Block(task, buffer_size, n_threads)\<close> on the machine \<open>M\<close>, for the block at the
  address \<open>this\<close>. The member initialisers run first, \<open>threads(n_threads)\<close> among them, then
  the body with its two checks. The result holds the calls made on the unit of work and on
  the channel class, and either what ended the construction or the constructed block; a
  run that ends in \<open>signed_overflow\<close> has no defined calls, and its list is cut at the loop.
  Of the allocations only the thread vector, whose length is the argument \<open>n_threads\<close> and
  which is made before the checks, is followed through its failures; the clones, the
  channels and the map entries made after the checks are taken to be allocated.
\<close>

definition Block_ctor ::
  "machine \<Rightarrow> nat \<Rightarrow> Task \<Rightarrow> size_t \<Rightarrow> size_t \<Rightarrow> call list \<times> (error + Block)" where
  "Block_ctor M this task buffer_size' n_threads' =
     (case new_threads M n_threads' of
        Inl e \<Rightarrow> ([], Inl e)
      | Inr threads' \<Rightarrow>
          if n_threads' = 0
          then ([], Inl (invalid_argument (N_threads_not_positive (unat n_threads'))))
          else if buffer_size' < n_threads'
          then ([], Inl (invalid_argument
                          (Buffer_size_too_small (unat buffer_size') (unat n_threads'))))
          else
            let task_cpy = set_fast False (set_autoexec False (set_autoalloc False (clone task)));
                setup = [Clone, Set_autoalloc False, Set_autoexec False, Set_fast False]
            in (case for_int 0 n_threads' (\<lambda>i. clone task_cpy) [] of
                  Inl e \<Rightarrow> (setup, Inl e)
                | Inr tasks' \<Rightarrow>
                    (case ctor_sockets task [0..<length (sockets task)]
                            \<lparr>address = this, name = task_name task, n_threads = n_threads',
                             buffer_size = buffer_size', threads = threads', tasks = tasks',
                             buffered_sockets_in = [], buffered_sockets_out = []\<rparr> of
                       Inl e \<Rightarrow> (setup @ replicate (length tasks') Clone, Inl e)
                     | Inr (calls, blk') \<Rightarrow>
                         (setup @ replicate (length tasks') Clone @ calls, Inr blk'))))"

text \<open>The channel map of a direction.\<close>

definition channels :: "socket_t \<Rightarrow> Block \<Rightarrow> Buffered_Socket std_map" where
  "channels d blk = (if d = SIN then buffered_sockets_in blk else buffered_sockets_out blk)"

text \<open>Whether a call is the creation of the channel for the endpoint at index \<open>i\<close>.\<close>

fun creates :: "nat \<Rightarrow> call \<Rightarrow> bool" where
  "creates i (New_Buffered_Socket j T) = (i = j)"
| "creates i c = False"

subsection \<open>Binding\<close>

text \<open>
  \<open>Block::get_buffered_socket_in<T>(name)\<close> and \<open>Block::get_buffered_socket_out<T>(name)\<close>:
  the channel under \<open>name\<close>, provided that it exists and that its element type has the name
  of \<open>T\<close>.
\<close>

definition get_buffered_socket_in :: "type_index \<Rightarrow> Block \<Rightarrow> string \<Rightarrow> error + Buffered_Socket" where
  "get_buffered_socket_in T blk nm =
     (case map_of (buffered_sockets_in blk) nm of
        Some s \<Rightarrow>
          if type_to_string (bs_datatype s) = type_to_string T then Inr s
          else Inl (runtime_error
                 (Datatype_not_equal SIN nm (type_to_string (bs_datatype s)) (type_to_string T)))
      | None \<Rightarrow>
          Inl (runtime_error (Count_name SIN nm (map_count (buffered_sockets_in blk) nm))))"

definition get_buffered_socket_out :: "type_index \<Rightarrow> Block \<Rightarrow> string \<Rightarrow> error + Buffered_Socket" where
  "get_buffered_socket_out T blk nm =
     (case map_of (buffered_sockets_out blk) nm of
        Some s \<Rightarrow>
          if type_to_string (bs_datatype s) = type_to_string T then Inr s
          else Inl (runtime_error
                 (Datatype_not_equal SOUT nm (type_to_string (bs_datatype s)) (type_to_string T)))
      | None \<Rightarrow>
          Inl (runtime_error (Count_name SOUT nm (map_count (buffered_sockets_out blk) nm))))"

text \<open>
  \<open>Block::bind_by_type<T>\<close> and \<open>Block::bind\<close>, called on the block \<open>blk\<close>. The result is
  the exception thrown, if any, together with the state of \<open>blk\<close> after the call: \<open>sin\<close> points
  into the map of \<open>blk\<close>, so what \<open>sin->bind(sout)\<close> does to it is an update of that entry.
  The destination block is only read. The integer that \<open>sin->bind(sout)\<close> returns is not
  described anywhere; success is \<open>Inr ()\<close>. A test of \<open>count(name)\<close> followed by
  \<open>operator[]\<close> on the same key is one lookup in the association list.
\<close>

definition bind_by_type ::
  "type_index \<Rightarrow> Block \<Rightarrow> string \<Rightarrow> Block \<Rightarrow> string \<Rightarrow> (error + unit) \<times> Block" where
  "bind_by_type T blk start_sck_name dest_block dest_sck_name =
     (case get_buffered_socket_in T blk start_sck_name of
        Inl e \<Rightarrow> (Inl e, blk)
      | Inr sin \<Rightarrow>
          (case get_buffered_socket_out T dest_block dest_sck_name of
             Inl e \<Rightarrow> (Inl e, blk)
           | Inr sout \<Rightarrow>
               (Inr (), blk\<lparr>buffered_sockets_in :=
                           map_assign start_sck_name (Buffered_Socket_bind sin sout)
                             (buffered_sockets_in blk)\<rparr>)))"

definition Block_bind :: "Block \<Rightarrow> string \<Rightarrow> Block \<Rightarrow> string \<Rightarrow> (error + unit) \<times> Block" where
  "Block_bind blk start_sck_name dest_block dest_sck_name =
     (case map_of (buffered_sockets_in blk) start_sck_name of
        None \<Rightarrow>
          (Inl (runtime_error
             (Count_start_sck_name start_sck_name
                (map_count (buffered_sockets_in blk) start_sck_name))), blk)
      | Some s \<Rightarrow>
          let sin_datatype = bs_datatype s
          in if sin_datatype = T_int8
             then bind_by_type T_int8 blk start_sck_name dest_block dest_sck_name
             else if sin_datatype = T_int16
             then bind_by_type T_int16 blk start_sck_name dest_block dest_sck_name
             else if sin_datatype = T_int32
             then bind_by_type T_int32 blk start_sck_name dest_block dest_sck_name
             else if sin_datatype = T_int64
             then bind_by_type T_int64 blk start_sck_name dest_block dest_sck_name
             else if sin_datatype = T_float
             then bind_by_type T_float blk start_sck_name dest_block dest_sck_name
             else if sin_datatype = T_double
             then bind_by_type T_double blk start_sck_name dest_block dest_sck_name
             else (Inl (runtime_error Should_not_happen), blk))"

text \<open>The blocks that the program can hold: constructed ones, and those after a \<open>bind\<close>.\<close>

inductive constructed :: "Block \<Rightarrow> bool" where
  by_ctor: "Block_ctor M this task buffer_size' n_threads' = (calls, Inr blk) \<Longrightarrow> constructed blk"
| by_bind: "constructed blk \<Longrightarrow> Block_bind blk start_sck_name dest_block dest_sck_name = (r, blk')
            \<Longrightarrow> constructed blk'"

subsection \<open>The execution loop of one worker thread\<close>

text \<open>
  What a worker thread does, as the sequence of its reads of the shared flag \<open>is_done\<close> and
  of its calls on the channels and on its replica. \<open>pop\<close> and \<open>push\<close> carry the key of the
  channel, the thread index and the value returned.
\<close>

datatype event =
  Is_done bool | Pop string nat bool | Exec nat | Push string nat bool | Stop socket_t string

text \<open>
  The flag is written by another thread and the channels are shared, so what a read of the
  flag or a call of \<open>pop\<close>/\<open>push\<close> returns is an input of the thread: the list of these
  observations, in the order in which the thread makes them. A thread that is still running
  when the observations end has no result (\<open>None\<close>).

  \<open>spin call\<close> is the loop \<open>while (!is_done && call) {}\<close>.
\<close>

fun spin :: "(bool \<Rightarrow> event) \<Rightarrow> bool list \<Rightarrow> (event list \<times> bool list) option" where
  "spin call [] = None"
| "spin call (d # obs) =
     (if d then Some ([Is_done True], obs)
      else (case obs of
              [] \<Rightarrow> None
            | r # obs' \<Rightarrow>
                if r
                then (case spin call obs' of
                        None \<Rightarrow> None
                      | Some (evs, obs'') \<Rightarrow> Some (Is_done False # call True # evs, obs''))
                else Some ([Is_done False, call False], obs')))"

text \<open>The loop over a map of channels, each one spun on in turn.\<close>

fun for_each ::
  "(string \<Rightarrow> bool \<Rightarrow> event) \<Rightarrow> string list \<Rightarrow> bool list \<Rightarrow> (event list \<times> bool list) option" where
  "for_each call [] obs = Some ([], obs)"
| "for_each call (k # ks) obs =
     (case spin (call k) obs of
        None \<Rightarrow> None
      | Some (evs, obs') \<Rightarrow>
          (case for_each call ks obs' of
             None \<Rightarrow> None
           | Some (evs', obs'') \<Rightarrow> Some (evs @ evs', obs'')))"

text \<open>
  The body of the outer \<open>while\<close> loop of \<open>Block::execute_task\<close>: its events, the observations
  left, and whether it left the loop through \<open>break\<close>.
\<close>

definition loop_body :: "Block \<Rightarrow> nat \<Rightarrow> bool list \<Rightarrow> (event list \<times> bool list \<times> bool) option" where
  "loop_body blk tid obs =
     (case for_each (\<lambda>k. Pop k tid) (map fst (buffered_sockets_in blk)) obs of
        None \<Rightarrow> None
      | Some (pops, obs1) \<Rightarrow>
          (case obs1 of
             [] \<Rightarrow> None
           | d # obs2 \<Rightarrow>
               if d then Some (pops @ [Is_done True], obs2, True)
               else (case for_each (\<lambda>k. Push k tid) (map fst (buffered_sockets_out blk)) obs2 of
                       None \<Rightarrow> None
                     | Some (pushes, obs3) \<Rightarrow>
                         Some (pops @ [Is_done False, Exec tid] @ pushes, obs3, False))))"

lemma spin_length: "spin call obs = Some (evs, obs') \<Longrightarrow> length obs' < length obs"
proof (induction call obs arbitrary: evs obs' rule: spin.induct)
  case (1 call)
  then show ?case by simp
next
  case (2 call d obs)
  then show ?case
    by (fastforce split: if_splits list.splits option.splits)
qed

lemma for_each_length: "for_each call ks obs = Some (evs, obs') \<Longrightarrow> length obs' \<le> length obs"
proof (induction ks arbitrary: obs evs obs')
  case Nil
  then show ?case by simp
next
  case (Cons k ks)
  then show ?case
    by (fastforce split: option.splits dest: spin_length)
qed

lemma loop_body_length:
  "loop_body blk tid obs = Some (evs, obs', broke) \<Longrightarrow> length obs' < length obs"
  unfolding loop_body_def
  by (fastforce split: option.splits list.splits if_splits dest: for_each_length)

function while_not_done :: "Block \<Rightarrow> nat \<Rightarrow> bool list \<Rightarrow> (event list \<times> bool list) option" where
  "while_not_done blk tid [] = None"
| "while_not_done blk tid (d # obs) =
     (if d then Some ([Is_done True], obs)
      else (case loop_body blk tid obs of
              None \<Rightarrow> None
            | Some (evs, obs', broke) \<Rightarrow>
                if broke then Some (Is_done False # evs, obs')
                else (case while_not_done blk tid obs' of
                        None \<Rightarrow> None
                      | Some (evs', obs'') \<Rightarrow> Some (Is_done False # evs @ evs', obs''))))"
  by pat_completeness auto
termination
  by (relation "measure (\<lambda>(blk, tid, obs). length obs)") (auto dest: loop_body_length)

text \<open>\<open>Block::execute_task(tid, is_done)\<close>: the loop, then the two rounds of \<open>stop()\<close>.\<close>

definition execute_task :: "Block \<Rightarrow> nat \<Rightarrow> bool list \<Rightarrow> (event list \<times> bool list) option" where
  "execute_task blk tid obs =
     (case while_not_done blk tid obs of
        None \<Rightarrow> None
      | Some (evs, obs') \<Rightarrow>
          Some (evs @ map (Stop SOUT) (map fst (buffered_sockets_out blk))
                    @ map (Stop SIN) (map fst (buffered_sockets_in blk)), obs'))"

text \<open>Kinds of events.\<close>

fun is_exec :: "event \<Rightarrow> bool" where
  "is_exec (Exec t) = True"
| "is_exec e = False"

fun is_stop :: "event \<Rightarrow> bool" where
  "is_stop (Stop d k) = True"
| "is_stop e = False"

fun read_or_pop :: "event \<Rightarrow> bool" where
  "read_or_pop (Is_done b) = True"
| "read_or_pop (Pop k t r) = True"
| "read_or_pop e = False"

fun read_or_push :: "event \<Rightarrow> bool" where
  "read_or_push (Is_done b) = True"
| "read_or_push (Push k t r) = True"
| "read_or_push e = False"


subsection \<open>Example machine, units of work and blocks\<close>

text \<open>
  A 64-bit machine on which a thread handle takes eight bytes, so that a vector holds at most
  \<open>2^60 - 1\<close> of them, with room for 1024 handles.
\<close>

definition lp64 :: machine where
  "lp64 = \<lparr>vector_max_size = 1152921504606846975, thread_room = 1024\<rparr>"

text \<open>
  The unit of work of the specification's scenario, with one \<open>int32\<close> input and one \<open>int32\<close>
  output, and a unit of work with an endpoint of an element type outside the six kinds.
\<close>

definition double_task :: Task where
  "double_task =
     \<lparr>task_name = ''double'',
      sockets = [\<lparr>sck_name = ''in'', sck_datatype = T_int32, sck_type = SIN\<rparr>,
                 \<lparr>sck_name = ''out'', sck_datatype = T_int32, sck_type = SOUT\<rparr>],
      autoalloc = True, autoexec = True, fast = True\<rparr>"

definition odd_task :: Task where
  "odd_task =
     \<lparr>task_name = ''odd'',
      sockets = [\<lparr>sck_name = ''in'', sck_datatype = T_other ''uint8'', sck_type = SIN\<rparr>,
                 \<lparr>sck_name = ''out'', sck_datatype = T_double, sck_type = SOUT\<rparr>],
      autoalloc = True, autoexec = False, fast = True\<rparr>"

text \<open>
  The blocks that construction makes of them on \<open>lp64\<close>: for two threads at the address 100,
  and for one thread at the address 300.
\<close>

definition double_in :: Buffered_Socket where
  "double_in = new_Buffered_Socket T_int32
                 (replicate 2 \<lparr>sck_name = ''in'', sck_datatype = T_int32, sck_type = SIN\<rparr>)
                 SIN 2 (100, 0)"

definition double_out :: Buffered_Socket where
  "double_out = new_Buffered_Socket T_int32
                  (replicate 2 \<lparr>sck_name = ''out'', sck_datatype = T_int32, sck_type = SOUT\<rparr>)
                  SOUT 2 (100, 1)"

definition double_block :: Block where
  "double_block =
     \<lparr>address = 100, name = ''double'', n_threads = 2, buffer_size = 2, threads = 2,
      tasks = replicate 2 (double_task\<lparr>autoalloc := False, autoexec := False, fast := False\<rparr>),
      buffered_sockets_in = [(''in'', double_in)],
      buffered_sockets_out = [(''out'', double_out)]\<rparr>"

definition double_calls :: "call list" where
  "double_calls =
     [Clone, Set_autoalloc False, Set_autoexec False, Set_fast False, Clone, Clone,
      New_Buffered_Socket 0 T_int32, New_Buffered_Socket 1 T_int32]"

definition odd_block :: Block where
  "odd_block =
     \<lparr>address = 300, name = ''odd'', n_threads = 1, buffer_size = 1, threads = 1,
      tasks = [odd_task\<lparr>autoalloc := False, autoexec := False, fast := False\<rparr>],
      buffered_sockets_in = [],
      buffered_sockets_out =
        [(''out'', new_Buffered_Socket T_double
                    [\<lparr>sck_name = ''out'', sck_datatype = T_double, sck_type = SOUT\<rparr>]
                    SOUT 1 (300, 1))]\<rparr>"

definition odd_calls :: "call list" where
  "odd_calls =
     [Clone, Set_autoalloc False, Set_autoexec False, Set_fast False, Clone,
      New_Buffered_Socket 1 T_double]"

text \<open>
  A consumer with an \<open>int32\<close> input and a \<open>float64\<close> input, and its block for one thread at
  the address 200.
\<close>

definition sink_task :: Task where
  "sink_task =
     \<lparr>task_name = ''sink'',
      sockets = [\<lparr>sck_name = ''in'', sck_datatype = T_int32, sck_type = SIN\<rparr>,
                 \<lparr>sck_name = ''in64'', sck_datatype = T_double, sck_type = SIN\<rparr>],
      autoalloc = True, autoexec = True, fast = False\<rparr>"

definition sink_in :: Buffered_Socket where
  "sink_in = new_Buffered_Socket T_int32
               [\<lparr>sck_name = ''in'', sck_datatype = T_int32, sck_type = SIN\<rparr>] SIN 1 (200, 0)"

definition sink_in64 :: Buffered_Socket where
  "sink_in64 = new_Buffered_Socket T_double
                 [\<lparr>sck_name = ''in64'', sck_datatype = T_double, sck_type = SIN\<rparr>] SIN 1 (200, 1)"

definition sink_block :: Block where
  "sink_block =
     \<lparr>address = 200, name = ''sink'', n_threads = 1, buffer_size = 1, threads = 1,
      tasks = [sink_task\<lparr>autoalloc := False, autoexec := False, fast := False\<rparr>],
      buffered_sockets_in = [(''in'', sink_in), (''in64'', sink_in64)],
      buffered_sockets_out = []\<rparr>"

definition sink_calls :: "call list" where
  "sink_calls =
     [Clone, Set_autoalloc False, Set_autoexec False, Set_fast False, Clone,
      New_Buffered_Socket 0 T_int32, New_Buffered_Socket 1 T_double]"

text \<open>A block value that no construction yields: its input channel has another element type.\<close>

definition stray_block :: Block where
  "stray_block =
     odd_block\<lparr>buffered_sockets_in :=
       [(''in'', new_Buffered_Socket (T_other ''uint8'')
                   [\<lparr>sck_name = ''in'', sck_datatype = T_other ''uint8'', sck_type = SIN\<rparr>]
                   SIN 1 (300, 0))]\<rparr>"

section \<open>Properties\<close>

subsection \<open>The loops with an \<open>int\<close> counter\<close>

lemma of_nat_less_size_t: "i \<le> INT_MAX \<Longrightarrow> ((of_nat i :: size_t) < n) = (i < unat n)"
  by (simp add: word_less_nat_alt unat_of_nat INT_MAX_def)

lemma for_int_in_range:
  "unat n \<le> INT_MAX \<Longrightarrow> i \<le> unat n \<Longrightarrow> for_int i n body vec = Inr (vec @ map body [i..<unat n])"
proof (induction "unat n - i" arbitrary: i vec)
  case 0
  then show ?case
    by (subst for_int.simps) (simp add: of_nat_less_size_t)
next
  case (Suc k)
  then have lt: "i < unat n" and le: "i \<le> INT_MAX" and ne: "i \<noteq> INT_MAX" by simp_all
  have "for_int (Suc i) n body (vec @ [body i]) = Inr ((vec @ [body i]) @ map body [Suc i..<unat n])"
    using Suc by (intro Suc.hyps(1)) simp_all
  then show ?case
    using lt le ne by (subst for_int.simps) (simp add: of_nat_less_size_t upt_conv_Cons)
qed

lemma for_int_overflow:
  "INT_MAX < unat n \<Longrightarrow> i \<le> INT_MAX \<Longrightarrow> for_int i n body vec = Inl signed_overflow"
proof (induction "INT_MAX - i" arbitrary: i vec)
  case 0
  then show ?case
    by (subst for_int.simps) (simp add: of_nat_less_size_t)
next
  case (Suc k)
  then have "for_int (Suc i) n body (vec @ [body i]) = Inl signed_overflow"
    by (intro Suc.hyps(1)) simp_all
  then show ?case
    using Suc.prems Suc.hyps(2) by (subst for_int.simps) (simp add: of_nat_less_size_t)
qed

lemma for_int_cases:
  "for_int 0 n body [] =
     (if unat n \<le> INT_MAX then Inr (map body [0..<unat n]) else Inl signed_overflow)"
  using for_int_in_range [of n 0 body "[]"] for_int_overflow [of n 0 body "[]"] by simp

subsection \<open>Maps, element types and the loop over the endpoints\<close>

lemma map_of_map_assign: "map_of (map_assign k v m) = (map_of m)(k \<mapsto> v)"
  by (induction m) auto

lemma supported_iff_name:
  "supported T \<longleftrightarrow> type_to_string T \<in> {''int8'', ''int16'', ''int32'', ''int64'', ''float32'', ''float64''}"
  by (cases T) (simp_all add: supported_def)

lemma type_to_string_inject:
  "supported T \<Longrightarrow> type_to_string T' = type_to_string T \<longleftrightarrow> T' = T"
  by (cases T; cases T') (simp_all add: supported_def)

lemma ctor_socket_supported:
  "unat (n_threads blk) \<le> INT_MAX \<Longrightarrow> supported (sck_datatype (sockets task ! i)) \<Longrightarrow>
   ctor_socket task i blk =
     Inr ([New_Buffered_Socket i (sck_datatype (sockets task ! i))],
          add_socket (sck_type (sockets task ! i)) (sck_name (sockets task ! i))
            (new_Buffered_Socket (sck_datatype (sockets task ! i))
               (map (\<lambda>t. sockets (tasks blk ! t) ! i) [0..<unat (n_threads blk)])
               (sck_type (sockets task ! i)) (buffer_size blk) (address blk, i)) blk)"
  by (cases "sck_datatype (sockets task ! i)")
     (simp_all add: supported_def ctor_socket_def for_int_cases get_datatype_string_def
        get_socket_type_def Let_def)

lemma ctor_socket_unsupported:
  "unat (n_threads blk) \<le> INT_MAX \<Longrightarrow> \<not> supported (sck_datatype (sockets task ! i)) \<Longrightarrow>
   ctor_socket task i blk = Inr ([], blk)"
  by (cases "sck_datatype (sockets task ! i)")
     (simp_all add: supported_def ctor_socket_def for_int_cases get_datatype_string_def Let_def)

lemma ctor_socket_overflow:
  "INT_MAX < unat (n_threads blk) \<Longrightarrow> ctor_socket task i blk = Inl signed_overflow"
  by (simp add: ctor_socket_def for_int_cases)

lemma add_socket_frame:
  "tasks (add_socket d k c blk) = tasks blk"
  "n_threads (add_socket d k c blk) = n_threads blk"
  "buffer_size (add_socket d k c blk) = buffer_size blk"
  "address (add_socket d k c blk) = address blk"
  by (simp_all add: add_socket_def)

lemma channels_add_socket:
  "map_of (channels d (add_socket d' k c blk)) =
     (if d = d' then (map_of (channels d blk))(k \<mapsto> c) else map_of (channels d blk))"
  by (cases d; cases d') (simp_all add: channels_def add_socket_def map_of_map_assign)

lemma ctor_socket_Inr:
  assumes "ctor_socket task i blk = Inr (calls, blk')"
  shows "unat (n_threads blk) \<le> INT_MAX"
  using assms ctor_socket_overflow [of blk task i] by (cases "unat (n_threads blk) \<le> INT_MAX") auto

lemma ctor_socket_frame:
  assumes "ctor_socket task i blk = Inr (calls, blk')"
  shows "tasks blk' = tasks blk \<and> n_threads blk' = n_threads blk \<and>
    buffer_size blk' = buffer_size blk \<and> address blk' = address blk"
proof (cases "supported (sck_datatype (sockets task ! i))")
  case True
  show ?thesis
    using assms unfolding ctor_socket_supported [OF ctor_socket_Inr [OF assms] True]
    by (auto simp add: add_socket_frame)
next
  case False
  show ?thesis
    using assms unfolding ctor_socket_unsupported [OF ctor_socket_Inr [OF assms] False]
    by simp
qed

lemma ctor_sockets_step:
  assumes "ctor_sockets task (i # idxs) blk = Inr (calls, blk')"
  obtains c1 blk1 c2 where "ctor_socket task i blk = Inr (c1, blk1)"
    and "ctor_sockets task idxs blk1 = Inr (c2, blk')" and "calls = c1 @ c2"
proof (cases "ctor_socket task i blk")
  case (Inl e)
  then show ?thesis using assms by simp
next
  case (Inr p)
  obtain c1 blk1 where p: "p = (c1, blk1)" by (cases p)
  show ?thesis
  proof (cases "ctor_sockets task idxs blk1")
    case (Inl e)
    then show ?thesis using assms Inr p by simp
  next
    case r: (Inr q)
    obtain c2 blk2 where q: "q = (c2, blk2)" by (cases q)
    show ?thesis
      using assms Inr p r q that [of c1 blk1 c2] by simp
  qed
qed

lemma ctor_sockets_frame:
  "ctor_sockets task idxs blk = Inr (calls, blk') \<Longrightarrow>
   tasks blk' = tasks blk \<and> n_threads blk' = n_threads blk \<and> buffer_size blk' = buffer_size blk \<and>
   address blk' = address blk"
proof (induction idxs arbitrary: blk calls blk')
  case Nil
  then show ?case by simp
next
  case (Cons i idxs)
  from Cons.prems obtain c1 blk1 c2 where s1: "ctor_socket task i blk = Inr (c1, blk1)"
    and s2: "ctor_sockets task idxs blk1 = Inr (c2, blk')"
    by (rule ctor_sockets_step)
  show ?case
    using Cons.IH [OF s2] ctor_socket_frame [OF s1] by simp
qed

lemma ctor_sockets_succeeds:
  "unat (n_threads blk) \<le> INT_MAX \<Longrightarrow> \<exists>calls blk'. ctor_sockets task idxs blk = Inr (calls, blk')"
proof (induction idxs arbitrary: blk)
  case Nil
  then show ?case by simp
next
  case (Cons i idxs)
  obtain c1 blk1 where s1: "ctor_socket task i blk = Inr (c1, blk1)"
    using Cons.prems ctor_socket_supported [of blk task i] ctor_socket_unsupported [of blk task i]
    by (cases "supported (sck_datatype (sockets task ! i))") auto
  then have "unat (n_threads blk1) \<le> INT_MAX"
    using ctor_socket_frame [OF s1] Cons.prems by simp
  then obtain c2 blk2 where "ctor_sockets task idxs blk1 = Inr (c2, blk2)"
    using Cons.IH by blast
  then show ?case
    using s1 by simp
qed

lemma ctor_sockets_calls:
  "ctor_sockets task idxs blk = Inr (calls, blk') \<Longrightarrow>
   calls = concat (map (\<lambda>i. if supported (sck_datatype (sockets task ! i))
                             then [New_Buffered_Socket i (sck_datatype (sockets task ! i))]
                             else []) idxs)"
proof (induction idxs arbitrary: blk calls blk')
  case Nil
  then show ?case by simp
next
  case (Cons i idxs)
  from Cons.prems obtain c1 blk1 c2 where s1: "ctor_socket task i blk = Inr (c1, blk1)"
    and s2: "ctor_sockets task idxs blk1 = Inr (c2, blk')" and c: "calls = c1 @ c2"
    by (rule ctor_sockets_step)
  have "c1 = (if supported (sck_datatype (sockets task ! i))
              then [New_Buffered_Socket i (sck_datatype (sockets task ! i))] else [])"
    using s1 ctor_socket_Inr [OF s1]
    by (cases "supported (sck_datatype (sockets task ! i))")
       (auto simp add: ctor_socket_supported ctor_socket_unsupported)
  then show ?case
    using Cons.IH [OF s2] c by simp
qed

lemma ctor_sockets_untouched:
  "ctor_sockets task idxs blk = Inr (calls, blk') \<Longrightarrow>
   \<forall>i\<in>set idxs. sck_name (sockets task ! i) = k \<longrightarrow>
      sck_type (sockets task ! i) \<noteq> d \<or> \<not> supported (sck_datatype (sockets task ! i)) \<Longrightarrow>
   map_of (channels d blk') k = map_of (channels d blk) k"
proof (induction idxs arbitrary: blk calls blk')
  case Nil
  then show ?case by simp
next
  case (Cons i idxs)
  from Cons.prems(1) obtain c1 blk1 c2 where s1: "ctor_socket task i blk = Inr (c1, blk1)"
    and s2: "ctor_sockets task idxs blk1 = Inr (c2, blk')"
    by (rule ctor_sockets_step)
  have "map_of (channels d blk') k = map_of (channels d blk1) k"
    using Cons.IH [OF s2] Cons.prems(2) by simp
  moreover have "map_of (channels d blk1) k = map_of (channels d blk) k"
    using s1 Cons.prems(2) ctor_socket_Inr [OF s1]
    by (cases "supported (sck_datatype (sockets task ! i))")
       (auto simp add: ctor_socket_supported ctor_socket_unsupported channels_add_socket)
  ultimately show ?case by simp
qed

lemma ctor_sockets_channel:
  "ctor_sockets task idxs blk = Inr (calls, blk') \<Longrightarrow>
   distinct (map (\<lambda>i. sck_name (sockets task ! i)) idxs) \<Longrightarrow>
   i \<in> set idxs \<Longrightarrow> supported (sck_datatype (sockets task ! i)) \<Longrightarrow>
   map_of (channels (sck_type (sockets task ! i)) blk') (sck_name (sockets task ! i)) =
     Some (new_Buffered_Socket (sck_datatype (sockets task ! i))
             (map (\<lambda>t. sockets (tasks blk ! t) ! i) [0..<unat (n_threads blk)])
             (sck_type (sockets task ! i)) (buffer_size blk) (address blk, i))"
proof (induction idxs arbitrary: blk calls blk')
  case Nil
  then show ?case by simp
next
  case (Cons j idxs)
  from Cons.prems(1) obtain c1 blk1 c2 where s1: "ctor_socket task j blk = Inr (c1, blk1)"
    and s2: "ctor_sockets task idxs blk1 = Inr (c2, blk')"
    by (rule ctor_sockets_step)
  note fr = ctor_socket_frame [OF s1]
  note ok = ctor_socket_Inr [OF s1]
  show ?case
  proof (cases "i = j")
    case True
    have "\<forall>i'\<in>set idxs. sck_name (sockets task ! i') \<noteq> sck_name (sockets task ! i)"
      using Cons.prems(2) True by (auto simp add: image_iff)
    then have "map_of (channels (sck_type (sockets task ! i)) blk') (sck_name (sockets task ! i)) =
        map_of (channels (sck_type (sockets task ! i)) blk1) (sck_name (sockets task ! i))"
      using ctor_sockets_untouched [OF s2] by blast
    then show ?thesis
      using s1 True Cons.prems(4) ok by (auto simp add: ctor_socket_supported channels_add_socket)
  next
    case False
    then have "i \<in> set idxs" using Cons.prems(3) by simp
    then show ?thesis
      using Cons.IH [OF s2] Cons.prems(2,4) fr by simp
  qed
qed

lemma Block_ctor_Inr:
  assumes "Block_ctor M a task b n = (calls, Inr blk)"
  shows "unat n \<le> vector_max_size M \<and> unat n \<le> thread_room M \<and> unat n \<le> INT_MAX \<and>
    0 < n \<and> n \<le> b \<and>
    (\<exists>calls'. ctor_sockets task [0..<length (sockets task)]
        \<lparr>address = a, name = task_name task, n_threads = n, buffer_size = b, threads = unat n,
         tasks = replicate (unat n) (task\<lparr>autoalloc := False, autoexec := False, fast := False\<rparr>),
         buffered_sockets_in = [], buffered_sockets_out = []\<rparr> = Inr (calls', blk) \<and>
      calls = [Clone, Set_autoalloc False, Set_autoexec False, Set_fast False]
              @ replicate (unat n) Clone @ calls')"
proof -
  have l1: "\<not> vector_max_size M < unat n"
  proof
    assume "vector_max_size M < unat n"
    then show False using assms by (simp add: Block_ctor_def new_threads_def)
  qed
  have l2: "\<not> thread_room M < unat n"
  proof
    assume "thread_room M < unat n"
    then show False using assms l1 by (simp add: Block_ctor_def new_threads_def)
  qed
  have l3: "n \<noteq> 0"
  proof
    assume "n = 0"
    then show False using assms l1 l2 by (simp add: Block_ctor_def new_threads_def)
  qed
  have l4: "\<not> b < n"
  proof
    assume "b < n"
    then show False using assms l1 l2 l3 by (simp add: Block_ctor_def new_threads_def)
  qed
  have l5: "unat n \<le> INT_MAX"
  proof (rule ccontr)
    assume "\<not> unat n \<le> INT_MAX"
    then show False
      using assms l1 l2 l3 l4
      by (simp add: Block_ctor_def new_threads_def for_int_cases Let_def)
  qed
  have tk: "map (\<lambda>i. clone (set_fast False (set_autoexec False (set_autoalloc False (clone task)))))
              [0..<unat n] =
            replicate (unat n) (task\<lparr>autoalloc := False, autoexec := False, fast := False\<rparr>)"
    by (simp add: clone_def set_fast_def set_autoexec_def set_autoalloc_def map_replicate_const)
  have "\<exists>calls'. ctor_sockets task [0..<length (sockets task)]
        \<lparr>address = a, name = task_name task, n_threads = n, buffer_size = b, threads = unat n,
         tasks = replicate (unat n) (task\<lparr>autoalloc := False, autoexec := False, fast := False\<rparr>),
         buffered_sockets_in = [], buffered_sockets_out = []\<rparr> = Inr (calls', blk) \<and>
      calls = [Clone, Set_autoalloc False, Set_autoexec False, Set_fast False]
              @ replicate (unat n) Clone @ calls'"
    using assms l1 l2 l3 l4 l5 tk
    by (simp add: Block_ctor_def new_threads_def for_int_cases Let_def
          split: sum.splits prod.splits)
  then show ?thesis
    using l1 l2 l3 l4 l5 by (simp add: word_greater_zero_iff)
qed

lemma Block_ctor_succeeds:
  assumes "unat n \<le> vector_max_size M" and "unat n \<le> thread_room M" and "unat n \<le> INT_MAX"
    and "1 \<le> n" and "n \<le> b"
  shows "\<exists>calls blk. Block_ctor M a task b n = (calls, Inr blk)"
proof -
  let ?blk0 = "\<lparr>address = a, name = task_name task, n_threads = n, buffer_size = b,
         threads = unat n,
         tasks = map (\<lambda>i. clone (set_fast False (set_autoexec False (set_autoalloc False (clone task)))))
                   [0..<unat n],
         buffered_sockets_in = [], buffered_sockets_out = []\<rparr>"
  obtain calls blk where "ctor_sockets task [0..<length (sockets task)] ?blk0 = Inr (calls, blk)"
    using ctor_sockets_succeeds [of ?blk0 task "[0..<length (sockets task)]"] assms(3) by auto
  moreover have "n \<noteq> 0" and "\<not> b < n"
    using assms(4,5) by auto
  ultimately show ?thesis
    using assms(1,2,3)
    by (simp add: Block_ctor_def new_threads_def for_int_cases Let_def)
qed

lemma Block_ctor_tasks:
  "Block_ctor M a task b n = (calls, Inr blk) \<Longrightarrow>
   tasks blk = replicate (unat n) (task\<lparr>autoalloc := False, autoexec := False, fast := False\<rparr>) \<and>
   n_threads blk = n \<and> buffer_size blk = b \<and> address blk = a"
  by (auto dest!: Block_ctor_Inr ctor_sockets_frame)

lemma Block_ctor_calls:
  "Block_ctor M a task b n = (calls, Inr blk) \<Longrightarrow>
   calls = [Clone, Set_autoalloc False, Set_autoexec False, Set_fast False]
     @ replicate (unat n) Clone
     @ concat (map (\<lambda>i. if supported (sck_datatype (sockets task ! i))
                         then [New_Buffered_Socket i (sck_datatype (sockets task ! i))]
                         else []) [0..<length (sockets task)])"
  by (auto dest!: Block_ctor_Inr ctor_sockets_calls)

lemma Block_ctor_channel:
  assumes "Block_ctor M a task b n = (calls, Inr blk)"
    and "distinct (map sck_name (sockets task))"
    and "i < length (sockets task)"
    and "supported (sck_datatype (sockets task ! i))"
  shows "map_of (channels (sck_type (sockets task ! i)) blk) (sck_name (sockets task ! i)) =
     Some (new_Buffered_Socket (sck_datatype (sockets task ! i))
             (replicate (unat n) (sockets task ! i)) (sck_type (sockets task ! i)) b (a, i))"
proof -
  let ?blk0 = "\<lparr>address = a, name = task_name task, n_threads = n, buffer_size = b,
         threads = unat n,
         tasks = replicate (unat n) (task\<lparr>autoalloc := False, autoexec := False, fast := False\<rparr>),
         buffered_sockets_in = [], buffered_sockets_out = []\<rparr>"
  obtain calls' where loop: "ctor_sockets task [0..<length (sockets task)] ?blk0 = Inr (calls', blk)"
    using Block_ctor_Inr [OF assms(1)] by blast
  have "map (\<lambda>i. sck_name (sockets task ! i)) [0..<length (sockets task)] = map sck_name (sockets task)"
    by (rule nth_equalityI) simp_all
  then have d: "distinct (map (\<lambda>i. sck_name (sockets task ! i)) [0..<length (sockets task)])"
    using assms(2) by simp
  have "map (\<lambda>t. sockets (tasks ?blk0 ! t) ! i) [0..<unat (n_threads ?blk0)] =
        replicate (unat n) (sockets task ! i)"
    by (rule nth_equalityI) simp_all
  then show ?thesis
    using ctor_sockets_channel [OF loop d _ assms(4)] assms(3) by simp
qed

lemma Block_ctor_no_channel:
  assumes "Block_ctor M a task b n = (calls, Inr blk)"
    and "\<forall>i<length (sockets task). sck_name (sockets task ! i) = k \<longrightarrow>
           sck_type (sockets task ! i) \<noteq> d \<or> \<not> supported (sck_datatype (sockets task ! i))"
  shows "map_of (channels d blk) k = None"
proof -
  let ?blk0 = "\<lparr>address = a, name = task_name task, n_threads = n, buffer_size = b,
         threads = unat n,
         tasks = replicate (unat n) (task\<lparr>autoalloc := False, autoexec := False, fast := False\<rparr>),
         buffered_sockets_in = [], buffered_sockets_out = []\<rparr>"
  obtain calls' where loop: "ctor_sockets task [0..<length (sockets task)] ?blk0 = Inr (calls', blk)"
    using Block_ctor_Inr [OF assms(1)] by blast
  have "map_of (channels d blk) k = map_of (channels d ?blk0) k"
    using ctor_sockets_untouched [OF loop] assms(2) by simp
  then show ?thesis by (simp add: channels_def)
qed

lemma filter_creates_calls:
  "distinct idxs \<Longrightarrow>
   filter (creates i)
     (concat (map (\<lambda>j. if supported (sck_datatype (sockets task ! j))
                          then [New_Buffered_Socket j (sck_datatype (sockets task ! j))]
                          else []) idxs)) =
   (if i \<in> set idxs \<and> supported (sck_datatype (sockets task ! i))
    then [New_Buffered_Socket i (sck_datatype (sockets task ! i))] else [])"
  by (induction idxs) auto

lemma filter_creates_Block_ctor:
  assumes "Block_ctor M a task b n = (calls, Inr blk)"
  shows "filter (creates i) calls =
    (if i < length (sockets task) \<and> supported (sck_datatype (sockets task ! i))
     then [New_Buffered_Socket i (sck_datatype (sockets task ! i))] else [])"
proof -
  have "filter (creates i) (replicate k Clone) = []" for k
    by (induction k) simp_all
  then show ?thesis
    unfolding Block_ctor_calls [OF assms]
    by (simp add: filter_creates_calls)
qed

lemma upt_0_2: "[0..<2] = [0, Suc 0]"
  by (simp add: numeral_2_eq_2)

lemma replicate_2: "replicate 2 x = [x, x]"
  by (simp add: numeral_2_eq_2)

lemma for_int_1: "for_int 0 (1 :: size_t) body [] = Inr [body 0]"
  by (simp add: for_int_cases INT_MAX_def)

lemma for_int_2: "for_int 0 (2 :: size_t) body [] = Inr [body 0, body (Suc 0)]"
  by (simp add: for_int_cases INT_MAX_def upt_0_2)

lemma double_ctor: "Block_ctor lp64 100 double_task 2 2 = (double_calls, Inr double_block)"
  by (simp add: Block_ctor_def new_threads_def lp64_def for_int_2 Let_def
        ctor_socket_def double_task_def double_block_def double_calls_def double_in_def
        double_out_def clone_def set_fast_def set_autoexec_def set_autoalloc_def
        get_datatype_string_def get_socket_type_def add_socket_def new_Buffered_Socket_def
        replicate_2)

lemma odd_ctor: "Block_ctor lp64 300 odd_task 1 1 = (odd_calls, Inr odd_block)"
  by (simp add: Block_ctor_def new_threads_def lp64_def for_int_1 Let_def
        ctor_socket_def odd_task_def odd_block_def odd_calls_def
        clone_def set_fast_def set_autoexec_def set_autoalloc_def
        get_datatype_string_def get_socket_type_def add_socket_def new_Buffered_Socket_def)

lemma sink_ctor: "Block_ctor lp64 200 sink_task 1 1 = (sink_calls, Inr sink_block)"
  by (simp add: Block_ctor_def new_threads_def lp64_def for_int_1 Let_def
        ctor_socket_def sink_task_def sink_block_def sink_calls_def sink_in_def sink_in64_def
        clone_def set_fast_def set_autoexec_def set_autoalloc_def
        get_datatype_string_def get_socket_type_def add_socket_def new_Buffered_Socket_def)

subsection \<open>Construction: the checks on the sizes\<close>

text \<open>
  What the two checks do when the member initialiser \<open>threads(n_threads)\<close> has succeeded:
  for \<open>n_threads = 0\<close> or \<open>buffer_size < n_threads\<close> construction throws
  \<open>invalid_argument\<close> before any call, and for \<open>1 \<le> n_threads \<le> buffer_size\<close> it succeeds,
  provided that \<open>n_threads\<close> does not exceed \<open>INT_MAX\<close>.
\<close>

lemma Block_ctor_sizes_in_range:
  assumes "unat n \<le> vector_max_size M" and "unat n \<le> thread_room M"
  shows "(1 \<le> n \<and> n \<le> b \<and> unat n \<le> INT_MAX \<longrightarrow>
            (\<exists>calls blk. Block_ctor M a task b n = (calls, Inr blk))) \<and>
         (n = 0 \<or> b < n \<longrightarrow>
            (\<exists>m. Block_ctor M a task b n = ([], Inl (invalid_argument m)) \<and>
                 kind_of (invalid_argument m) = Some InvalidArgument))"
proof (intro conjI impI)
  assume "1 \<le> n \<and> n \<le> b \<and> unat n \<le> INT_MAX"
  then show "\<exists>calls blk. Block_ctor M a task b n = (calls, Inr blk)"
    using Block_ctor_succeeds [OF assms, of b a task] by simp
next
  assume "n = 0 \<or> b < n"
  then show "\<exists>m. Block_ctor M a task b n = ([], Inl (invalid_argument m)) \<and>
                 kind_of (invalid_argument m) = Some InvalidArgument"
    using assms by (auto simp add: Block_ctor_def new_threads_def)
qed

text \<open>
  C1 does not hold of the code. The thread vector is made by the member initialiser
  \<open>threads(n_threads)\<close>, which runs before the two checks of the constructor body. For
  \<open>buffer_size = 0\<close> and \<open>n_threads = 2^61\<close>, a pair with \<open>buffer_size < n_threads\<close>, the
  vector would be longer than a vector may be, and construction leaves with the standard
  library's \<open>length_error\<close>, which is not the \<open>invalid_argument\<close> of the checks.
\<close>

theorem Block_ctor_length_error:
  "(0 :: size_t) < 2305843009213693952 \<and>
   Block_ctor lp64 100 double_task 0 2305843009213693952 = ([], Inl length_error) \<and>
   kind_of length_error = None"
  by (simp add: Block_ctor_def new_threads_def lp64_def)

subsection \<open>Construction: the replicas\<close>



subsection \<open>Construction: the channels\<close>

text \<open>
  What construction does for the endpoints whose element type is one of the six kinds, when
  the names of the endpoints are distinct: it creates exactly one channel for each, of that
  element type and of capacity \<open>buffer_size\<close>, and enters it under the endpoint's name in the
  map of the endpoint's direction; the map of the other direction has no entry under that
  name.
\<close>

lemma Block_ctor_channels:
  assumes "Block_ctor M a task b n = (calls, Inr blk)"
    and "distinct (map sck_name (sockets task))"
  shows "length (tasks blk) = unat n \<and>
    (\<forall>i<length (sockets task). supported (sck_datatype (sockets task ! i)) \<longrightarrow>
       map_of (channels (sck_type (sockets task ! i)) blk) (sck_name (sockets task ! i)) =
         Some (new_Buffered_Socket (sck_datatype (sockets task ! i))
                 (replicate (unat n) (sockets task ! i)) (sck_type (sockets task ! i)) b (a, i)) \<and>
       (\<forall>d. d \<noteq> sck_type (sockets task ! i) \<longrightarrow>
          map_of (channels d blk) (sck_name (sockets task ! i)) = None) \<and>
       filter (creates i) calls = [New_Buffered_Socket i (sck_datatype (sockets task ! i))])"
proof -
  have "length (tasks blk) = unat n"
    using Block_ctor_tasks [OF assms(1)] by simp
  moreover have "map_of (channels d blk) (sck_name (sockets task ! i)) = None"
    if "i < length (sockets task)" and "d \<noteq> sck_type (sockets task ! i)" for i d
  proof (rule Block_ctor_no_channel [OF assms(1)], intro allI impI)
    fix j
    assume "j < length (sockets task)"
      and "sck_name (sockets task ! j) = sck_name (sockets task ! i)"
    then have "j = i"
      using nth_eq_iff_index_eq [OF assms(2), of j i] that(1) by simp
    then show "sck_type (sockets task ! j) \<noteq> d \<or> \<not> supported (sck_datatype (sockets task ! j))"
      using that(2) by simp
  qed
  ultimately show ?thesis
    using Block_ctor_channel [OF assms] filter_creates_Block_ctor [OF assms(1)] by simp
qed

text \<open>
  C7 does not hold of the code. It asks for a channel for every endpoint of the unit of
  work. The chain of comparisons in the constructor has no final \<open>else\<close>, so for an endpoint
  whose element type is none of the six kinds no channel is created and nothing is thrown,
  whereas the same chain in \<open>bind\<close> ends in a throw. For \<open>odd_task\<close>, whose input \<open>in\<close> has
  such a type, construction succeeds, creates no channel for the endpoint at index 0, and
  neither map of the block has the key \<open>in\<close>.
\<close>

theorem Block_ctor_channel_missing:
  "Block_ctor lp64 300 odd_task 1 1 = (odd_calls, Inr odd_block) \<and>
   sockets odd_task ! 0 = \<lparr>sck_name = ''in'', sck_datatype = T_other ''uint8'', sck_type = SIN\<rparr> \<and>
   map_of (buffered_sockets_in odd_block) ''in'' = None \<and>
   map_of (buffered_sockets_out odd_block) ''in'' = None \<and>
   filter (creates 0) odd_calls = []"
  using odd_ctor by (simp add: odd_task_def odd_block_def odd_calls_def)

subsection \<open>Construction: endpoints of other element types\<close>

text \<open>
  C10. When the element type name of the endpoint at index \<open>i\<close> is none of the six names,
  the round of the construction loop for that endpoint makes no call and leaves the block as
  it is, so construction raises no error for it: with sizes that pass the checks (and a
  thread vector and \<open>int\<close> counters within their limits) construction succeeds. Whenever it
  succeeds, it has created no channel for that endpoint. If no other endpoint has the same
  name, that name is a key of neither channel map of the block, and the endpoint can never
  be bound: \<open>bind\<close> on the block under that name fails with the count error, and so does the
  lookup of the name as the output of a destination.
\<close>

theorem Block_ctor_skips_other_types:
  assumes "i < length (sockets task)"
    and "get_datatype_string (sockets task ! i) \<notin>
           {''int8'', ''int16'', ''int32'', ''int64'', ''float32'', ''float64''}"
  shows "(\<forall>blk0. unat (n_threads blk0) \<le> INT_MAX \<longrightarrow> ctor_socket task i blk0 = Inr ([], blk0)) \<and>
    (unat n \<le> vector_max_size M \<and> unat n \<le> thread_room M \<and> unat n \<le> INT_MAX \<and>
     1 \<le> n \<and> n \<le> b \<longrightarrow> (\<exists>calls blk. Block_ctor M a task b n = (calls, Inr blk))) \<and>
    (\<forall>calls blk. Block_ctor M a task b n = (calls, Inr blk) \<longrightarrow>
       filter (creates i) calls = [] \<and>
       ((\<forall>j<length (sockets task). j \<noteq> i \<longrightarrow>
           sck_name (sockets task ! j) \<noteq> sck_name (sockets task ! i)) \<longrightarrow>
        map_of (buffered_sockets_in blk) (sck_name (sockets task ! i)) = None \<and>
        map_of (buffered_sockets_out blk) (sck_name (sockets task ! i)) = None \<and>
        (\<forall>dest d. Block_bind blk (sck_name (sockets task ! i)) dest d =
           (Inl (runtime_error (Count_start_sck_name (sck_name (sockets task ! i)) 0)), blk)) \<and>
        (\<forall>T. get_buffered_socket_out T blk (sck_name (sockets task ! i)) =
           Inl (runtime_error (Count_name SOUT (sck_name (sockets task ! i)) 0)))))"
proof (intro conjI allI impI)
  have unsupp: "\<not> supported (sck_datatype (sockets task ! i))"
    using assms(2) by (simp add: supported_iff_name get_datatype_string_def)
  {
    fix blk0 :: Block
    assume "unat (n_threads blk0) \<le> INT_MAX"
    then show "ctor_socket task i blk0 = Inr ([], blk0)"
      using unsupp by (rule ctor_socket_unsupported)
  }
  {
    assume "unat n \<le> vector_max_size M \<and> unat n \<le> thread_room M \<and> unat n \<le> INT_MAX \<and>
     1 \<le> n \<and> n \<le> b"
    then show "\<exists>calls blk. Block_ctor M a task b n = (calls, Inr blk)"
      using Block_ctor_succeeds [of n M b a task] by simp
  }
  fix calls blk
  assume ctor: "Block_ctor M a task b n = (calls, Inr blk)"
  show "filter (creates i) calls = []"
    using filter_creates_Block_ctor [OF ctor, of i] unsupp by simp
  assume uniq: "\<forall>j<length (sockets task). j \<noteq> i \<longrightarrow>
           sck_name (sockets task ! j) \<noteq> sck_name (sockets task ! i)"
  have absent: "map_of (channels d blk) (sck_name (sockets task ! i)) = None" for d
    by (rule Block_ctor_no_channel [OF ctor]) (use uniq unsupp in auto)
  show i_none: "map_of (buffered_sockets_in blk) (sck_name (sockets task ! i)) = None"
    using absent [of SIN] by (simp add: channels_def)
  show o_none: "map_of (buffered_sockets_out blk) (sck_name (sockets task ! i)) = None"
    using absent [of SOUT] by (simp add: channels_def)
  show "Block_bind blk (sck_name (sockets task ! i)) dest d =
           (Inl (runtime_error (Count_start_sck_name (sck_name (sockets task ! i)) 0)), blk)"
    for dest d
    using i_none by (simp add: Block_bind_def map_count_def)
  show "get_buffered_socket_out T blk (sck_name (sockets task ! i)) =
           Inl (runtime_error (Count_name SOUT (sck_name (sockets task ! i)) 0))" for T
    using o_none by (simp add: get_buffered_socket_out_def map_count_def)
qed

theorem Block_ctor_skips_other_types_witness:
  "Block_ctor lp64 300 odd_task 1 1 = (odd_calls, Inr odd_block) \<and>
   get_datatype_string (sockets odd_task ! 0) = '''' \<and>
   ctor_socket odd_task 0 odd_block = Inr ([], odd_block) \<and>
   filter (creates 0) odd_calls = [] \<and>
   map_of (buffered_sockets_in odd_block) ''in'' = None \<and>
   map_of (buffered_sockets_out odd_block) ''in'' = None \<and>
   Block_bind odd_block ''in'' double_block ''out'' =
     (Inl (runtime_error (Count_start_sck_name ''in'' 0)), odd_block)"
proof -
  have h: "get_datatype_string (sockets odd_task ! 0) \<notin>
           {''int8'', ''int16'', ''int32'', ''int64'', ''float32'', ''float64''}"
    and e: "get_datatype_string (sockets odd_task ! 0) = ''''"
    and l: "0 < length (sockets odd_task)"
    and nm: "sck_name (sockets odd_task ! 0) = ''in''"
    and u: "\<forall>j<length (sockets odd_task). j \<noteq> 0 \<longrightarrow>
         sck_name (sockets odd_task ! j) \<noteq> sck_name (sockets odd_task ! 0)"
    by (simp_all add: odd_task_def get_datatype_string_def less_Suc_eq)
  have s: "unat (n_threads odd_block) \<le> INT_MAX"
    by (simp add: odd_block_def INT_MAX_def)
  note all = Block_ctor_skips_other_types [OF l h, where M = lp64 and n = 1 and b = 1 and a = 300]
  have "ctor_socket odd_task 0 odd_block = Inr ([], odd_block)"
    using all s by blast
  moreover have "filter (creates 0) odd_calls = [] \<and>
   map_of (buffered_sockets_in odd_block) ''in'' = None \<and>
   map_of (buffered_sockets_out odd_block) ''in'' = None \<and>
   Block_bind odd_block ''in'' double_block ''out'' =
     (Inl (runtime_error (Count_start_sck_name ''in'' 0)), odd_block)"
    using all odd_ctor u nm by auto
  ultimately show ?thesis
    using odd_ctor e by simp
qed

subsection \<open>Binding: what the dispatch does\<close>

lemma Block_bind_dispatch_eq:
  "Block_bind blk a dest d =
     (case map_of (buffered_sockets_in blk) a of
        None \<Rightarrow> (Inl (runtime_error (Count_start_sck_name a 0)), blk)
      | Some s \<Rightarrow>
          if supported (bs_datatype s) then bind_by_type (bs_datatype s) blk a dest d
          else (Inl (runtime_error Should_not_happen), blk))"
proof (cases "map_of (buffered_sockets_in blk) a")
  case None
  then show ?thesis by (simp add: Block_bind_def map_count_def)
next
  case (Some s)
  then show ?thesis
    by (cases "bs_datatype s") (simp_all add: Block_bind_def supported_def Let_def)
qed

lemma bind_by_type_eq:
  assumes "map_of (buffered_sockets_in blk) a = Some s" and "supported (bs_datatype s)"
  shows "bind_by_type (bs_datatype s) blk a dest d =
     (case map_of (buffered_sockets_out dest) d of
        None \<Rightarrow> (Inl (runtime_error (Count_name SOUT d 0)), blk)
      | Some so \<Rightarrow>
          if bs_datatype so = bs_datatype s
          then (Inr (), blk\<lparr>buffered_sockets_in :=
                            map_assign a (Buffered_Socket_bind s so) (buffered_sockets_in blk)\<rparr>)
          else (Inl (runtime_error (Datatype_not_equal SOUT d (type_to_string (bs_datatype so))
                                      (type_to_string (bs_datatype s)))), blk))"
  using assms type_to_string_inject [OF assms(2)]
  by (simp add: bind_by_type_def get_buffered_socket_in_def get_buffered_socket_out_def
        map_count_def split: option.splits)

lemma ctor_sockets_supported:
  "ctor_sockets task idxs blk = Inr (calls, blk') \<Longrightarrow>
   (\<And>d k s. map_of (channels d blk) k = Some s \<Longrightarrow> supported (bs_datatype s)) \<Longrightarrow>
   map_of (channels d blk') k = Some s \<Longrightarrow> supported (bs_datatype s)"
proof (induction idxs arbitrary: blk calls blk' d k s)
  case Nil
  then show ?case by simp
next
  case (Cons i idxs)
  from Cons.prems(1) obtain c1 blk1 c2 where s1: "ctor_socket task i blk = Inr (c1, blk1)"
    and s2: "ctor_sockets task idxs blk1 = Inr (c2, blk')"
    by (rule ctor_sockets_step)
  note ok = ctor_socket_Inr [OF s1]
  have "supported (bs_datatype s')" if "map_of (channels d' blk1) k' = Some s'" for d' k' s'
  proof (cases "supported (sck_datatype (sockets task ! i))")
    case True
    then show ?thesis
      using s1 that Cons.prems(2) [of d' k' s'] ok
      by (auto simp add: ctor_socket_supported channels_add_socket new_Buffered_Socket_def
            split: if_splits)
  next
    case False
    then show ?thesis
      using s1 that Cons.prems(2) [of d' k' s'] ok by (simp add: ctor_socket_unsupported)
  qed
  then show ?case
    using Cons.IH [OF s2 _ Cons.prems(3)] by blast
qed

lemma Block_bind_supported:
  assumes "Block_bind blk a dest d = (r, blk')"
    and "\<And>d k s. map_of (channels d blk) k = Some s \<Longrightarrow> supported (bs_datatype s)"
    and "map_of (channels e blk') k = Some s"
  shows "supported (bs_datatype s)"
proof (cases "blk' = blk")
  case True
  then show ?thesis using assms(2,3) by blast
next
  case False
  then obtain sin sout where sin: "map_of (buffered_sockets_in blk) a = Some sin"
    and blk': "blk' = blk\<lparr>buffered_sockets_in :=
                 map_assign a (Buffered_Socket_bind sin sout) (buffered_sockets_in blk)\<rparr>"
    using assms(1)
    by (auto simp add: Block_bind_dispatch_eq bind_by_type_eq split: option.splits if_splits)
  have "supported (bs_datatype sin)"
    using assms(2) [of SIN a sin] sin by (simp add: channels_def)
  then show ?thesis
    using assms(2) [of e k s] assms(3) blk'
    by (cases e) (auto simp add: channels_def map_of_map_assign Buffered_Socket_bind_def
          split: if_splits)
qed

lemma constructed_supported:
  "constructed blk \<Longrightarrow> map_of (channels d blk) k = Some s \<Longrightarrow> supported (bs_datatype s)"
proof (induction arbitrary: d k s rule: constructed.induct)
  case (by_ctor M a task b n calls blk)
  let ?blk0 = "\<lparr>address = a, name = task_name task, n_threads = n, buffer_size = b,
         threads = unat n,
         tasks = replicate (unat n) (task\<lparr>autoalloc := False, autoexec := False, fast := False\<rparr>),
         buffered_sockets_in = [], buffered_sockets_out = []\<rparr>"
  obtain calls' where loop: "ctor_sockets task [0..<length (sockets task)] ?blk0 = Inr (calls', blk)"
    using Block_ctor_Inr [OF by_ctor.hyps] by blast
  show ?case
  proof (rule ctor_sockets_supported [OF loop _ by_ctor.prems])
    fix d' k' s'
    assume "map_of (channels d' ?blk0) k' = Some s'"
    then show "supported (bs_datatype s')" by (cases d') (simp_all add: channels_def)
  qed
next
  case (by_bind blk s dest d r blk')
  then show ?case
    using Block_bind_supported by blast
qed

lemma constructed_examples: "constructed double_block" "constructed sink_block"
  using double_ctor sink_ctor by (auto intro: constructed.by_ctor)

lemma example_lookups:
  "map_of (buffered_sockets_in double_block) ''in'' = Some double_in"
  "map_of (buffered_sockets_in double_block) ''out'' = None"
  "map_of (buffered_sockets_out double_block) ''out'' = Some double_out"
  "map_of (buffered_sockets_out double_block) ''in'' = None"
  "map_of (buffered_sockets_in sink_block) ''in'' = Some sink_in"
  "map_of (buffered_sockets_in sink_block) ''in64'' = Some sink_in64"
  "map_of (buffered_sockets_in sink_block) ''out'' = None"
  by (simp_all add: double_block_def sink_block_def)

lemma example_datatypes:
  "bs_datatype sink_in = T_int32" "bs_datatype sink_in64 = T_double"
  "bs_datatype double_out = T_int32" "bs_datatype double_in = T_int32"
  by (simp_all add: sink_in_def sink_in64_def double_out_def double_in_def new_Buffered_Socket_def)

text \<open>
  C8. When the channel that \<open>bind\<close> looks up (the entry under the first name in the input
  map of the block it is called on) has an element type that is none of the six kinds,
  \<open>bind\<close> throws the \<open>runtime_error\<close> "This should not happen" (the kind \<open>Unreachable\<close>);
  when it is one of the six, \<open>bind\<close> is \<open>bind_by_type\<close> instantiated at exactly that type.
\<close>

theorem Block_bind_dispatch:
  assumes "map_of (buffered_sockets_in blk) a = Some s"
  shows "(bs_datatype s \<notin> {T_int8, T_int16, T_int32, T_int64, T_float, T_double} \<longrightarrow>
            Block_bind blk a dest d = (Inl (runtime_error Should_not_happen), blk) \<and>
            kind_of (runtime_error Should_not_happen) = Some Unreachable) \<and>
         (bs_datatype s \<in> {T_int8, T_int16, T_int32, T_int64, T_float, T_double} \<longrightarrow>
            Block_bind blk a dest d = bind_by_type (bs_datatype s) blk a dest d)"
  using assms by (simp add: Block_bind_dispatch_eq supported_def)

theorem Block_bind_dispatch_witness:
  "Block_bind stray_block ''in'' double_block ''out'' =
     (Inl (runtime_error Should_not_happen), stray_block) \<and>
   Block_bind sink_block ''in64'' double_block ''out'' =
     bind_by_type T_double sink_block ''in64'' double_block ''out''"
proof -
  have "map_of (buffered_sockets_in stray_block) ''in'' =
      Some (new_Buffered_Socket (T_other ''uint8'')
              [\<lparr>sck_name = ''in'', sck_datatype = T_other ''uint8'', sck_type = SIN\<rparr>]
              SIN 1 (300, 0))"
    by (simp add: stray_block_def)
  from Block_bind_dispatch [OF this, of double_block "''out''"]
    Block_bind_dispatch [OF example_lookups(6), of double_block "''out''"]
  show ?thesis
    by (simp add: new_Buffered_Socket_def example_datatypes)
qed

subsection \<open>Binding: the failures\<close>

text \<open>
  C5. On a block that the program can hold, a \<open>bind\<close> whose first name is no key of the
  block's input map, or whose second name is no key of the destination's output map, throws
  the \<open>runtime_error\<close> of the count check on that map (the kind \<open>NotFound\<close>), and the block
  is as it was: no connection is made.
\<close>

theorem Block_bind_not_found:
  assumes "constructed blk"
    and "map_of (buffered_sockets_in blk) a = None \<or> map_of (buffered_sockets_out dest) d = None"
  shows "\<exists>e. Block_bind blk a dest d = (Inl e, blk) \<and> kind_of e = Some NotFound \<and>
    e = runtime_error (if map_of (buffered_sockets_in blk) a = None
                       then Count_start_sck_name a 0 else Count_name SOUT d 0)"
proof (cases "map_of (buffered_sockets_in blk) a")
  case None
  then show ?thesis by (simp add: Block_bind_dispatch_eq)
next
  case (Some s)
  have "supported (bs_datatype s)"
    using constructed_supported [OF assms(1), of SIN a s] Some by (simp add: channels_def)
  then show ?thesis
    using Some assms(2) by (simp add: Block_bind_dispatch_eq bind_by_type_eq)
qed

theorem Block_bind_not_found_witness:
  "constructed sink_block \<and>
   map_of (buffered_sockets_in sink_block) ''out'' = None \<and>
   Block_bind sink_block ''out'' double_block ''out'' =
     (Inl (runtime_error (Count_start_sck_name ''out'' 0)), sink_block) \<and>
   map_of (buffered_sockets_out double_block) ''in'' = None \<and>
   Block_bind sink_block ''in'' double_block ''in'' =
     (Inl (runtime_error (Count_name SOUT ''in'' 0)), sink_block)"
  using Block_bind_not_found [OF constructed_examples(2), of "''out''" double_block "''out''"]
    Block_bind_not_found [OF constructed_examples(2), of "''in''" double_block "''in''"]
    constructed_examples(2)
  by (simp add: example_lookups)

text \<open>
  C4. On a block that the program can hold, a \<open>bind\<close> of an input channel to an output
  channel of another element type throws the \<open>runtime_error\<close> of the element type check
  (the kind \<open>TypeMismatch\<close>), and the block is as it was; the destination block is only
  read. So neither channel changes.
\<close>

theorem Block_bind_type_mismatch:
  assumes "constructed blk"
    and "map_of (buffered_sockets_in blk) a = Some sin"
    and "map_of (buffered_sockets_out dest) d = Some sout"
    and "bs_datatype sin \<noteq> bs_datatype sout"
  shows "Block_bind blk a dest d =
      (Inl (runtime_error (Datatype_not_equal SOUT d (type_to_string (bs_datatype sout))
                             (type_to_string (bs_datatype sin)))), blk) \<and>
    kind_of (runtime_error (Datatype_not_equal SOUT d (type_to_string (bs_datatype sout))
                              (type_to_string (bs_datatype sin)))) = Some TypeMismatch"
proof -
  have "supported (bs_datatype sin)"
    using constructed_supported [OF assms(1), of SIN a sin] assms(2) by (simp add: channels_def)
  then show ?thesis
    using assms(2,3,4) by (auto simp add: Block_bind_dispatch_eq bind_by_type_eq)
qed

theorem Block_bind_type_mismatch_witness:
  "constructed sink_block \<and>
   map_of (buffered_sockets_in sink_block) ''in64'' = Some sink_in64 \<and>
   map_of (buffered_sockets_out double_block) ''out'' = Some double_out \<and>
   bs_datatype sink_in64 = T_double \<and> bs_datatype double_out = T_int32 \<and>
   Block_bind sink_block ''in64'' double_block ''out'' =
     (Inl (runtime_error (Datatype_not_equal SOUT ''out'' ''int32'' ''float64'')), sink_block)"
proof -
  have "bs_datatype sink_in64 \<noteq> bs_datatype double_out"
    by (simp add: example_datatypes)
  from Block_bind_type_mismatch [OF constructed_examples(2) example_lookups(6) example_lookups(3) this]
  show ?thesis
    using constructed_examples(2) by (simp add: example_lookups example_datatypes)
qed

subsection \<open>Binding: the connection\<close>

lemma Block_bind_success:
  assumes "map_of (buffered_sockets_in blk) a = Some sin"
    and "supported (bs_datatype sin)"
    and "map_of (buffered_sockets_out dest) d = Some sout"
    and "bs_datatype sin = bs_datatype sout"
  shows "Block_bind blk a dest d =
    (Inr (), blk\<lparr>buffered_sockets_in :=
                  map_assign a (Buffered_Socket_bind sin sout) (buffered_sockets_in blk)\<rparr>)"
  using assms(3,4) bind_by_type_eq [OF assms(1,2), of dest d] assms(1,2)
  by (simp add: Block_bind_dispatch_eq)

lemma Block_bind_success_only:
  assumes "fst (Block_bind blk a dest d) = Inr ()"
  shows "\<exists>sin sout. map_of (buffered_sockets_in blk) a = Some sin \<and>
               map_of (buffered_sockets_out dest) d = Some sout \<and>
               bs_datatype sin = bs_datatype sout"
proof (cases "map_of (buffered_sockets_in blk) a")
  case None
  then show ?thesis using assms by (simp add: Block_bind_dispatch_eq)
next
  case (Some s)
  then have sup: "supported (bs_datatype s)"
    using assms by (simp add: Block_bind_dispatch_eq split: if_splits)
  show ?thesis
    using assms Some sup bind_by_type_eq [OF Some sup, of dest d]
    by (simp add: Block_bind_dispatch_eq split: option.splits if_splits)
qed

lemma push_then_pop:
  assumes "bs_buffer sin' = bs_buffer sout"
    and "Buffered_Socket_push sout x bufs = Some bufs'"
  shows "Buffered_Socket_pop sin' bufs' =
    Some (hd (bufs (bs_buffer sout) @ [x]),
          bufs'(bs_buffer sout := tl (bufs (bs_buffer sout) @ [x])))"
proof -
  have "bufs' = bufs(bs_buffer sout := bufs (bs_buffer sout) @ [x])"
    using assms(2) by (simp add: Buffered_Socket_push_def split: if_splits)
  then show ?thesis
    using assms(1) by (cases "bufs (bs_buffer sout)") (simp_all add: Buffered_Socket_pop_def)
qed

text \<open>
  C2, as the claim states it, fails: \<open>bind\<close> looks the first name up in the input map of the
  block it is called on, not in its output map. \<open>double_block\<close> has the \<open>int32\<close> output
  \<open>out\<close> and \<open>sink_block\<close> the \<open>int32\<close> input \<open>in\<close>, yet \<open>bind\<close> called on \<open>double_block\<close>
  with the output name first throws the error of the count check on the input map.
\<close>

theorem Block_bind_output_first_fails:
  "Block_ctor lp64 100 double_task 2 2 = (double_calls, Inr double_block) \<and>
   Block_ctor lp64 200 sink_task 1 1 = (sink_calls, Inr sink_block) \<and>
   map_of (buffered_sockets_out double_block) ''out'' = Some double_out \<and>
   map_of (buffered_sockets_in sink_block) ''in'' = Some sink_in \<and>
   bs_datatype double_out = bs_datatype sink_in \<and>
   Block_bind double_block ''out'' sink_block ''in'' =
     (Inl (runtime_error (Count_start_sck_name ''out'' 0)), double_block)"
  using double_ctor sink_ctor
  by (simp add: example_lookups example_datatypes Block_bind_dispatch_eq)

text \<open>
  C2, amended. \<open>bind(start_sck_name, dest_block, dest_sck_name)\<close> on a block that the
  program can hold looks up the \<^emph>\<open>input\<close> channel of the calling block under the first name
  and the \<^emph>\<open>output\<close> channel of the destination block under the second name. It succeeds
  only when both exist with the same element type, and then it connects the calling block's
  input channel to the buffer of the destination block's output channel, so that an item
  pushed through that output channel is delivered by the pops of that input channel, oldest
  item first; every other channel of the calling block, and its replicas, stay as they were.
\<close>

theorem Block_bind_connects:
  assumes "constructed blk"
  shows "(fst (Block_bind blk a dest d) = Inr () \<longrightarrow>
            (\<exists>sin sout. map_of (buffered_sockets_in blk) a = Some sin \<and>
               map_of (buffered_sockets_out dest) d = Some sout \<and>
               bs_datatype sin = bs_datatype sout)) \<and>
         (map_of (buffered_sockets_in blk) a = Some sin \<and>
          map_of (buffered_sockets_out dest) d = Some sout \<and>
          bs_datatype sin = bs_datatype sout \<longrightarrow>
            (\<exists>blk' sin'. Block_bind blk a dest d = (Inr (), blk') \<and>
               map_of (buffered_sockets_in blk') a = Some sin' \<and>
               sin' = sin\<lparr>bs_buffer := bs_buffer sout\<rparr> \<and>
               (\<forall>k. k \<noteq> a \<longrightarrow>
                  map_of (buffered_sockets_in blk') k = map_of (buffered_sockets_in blk) k) \<and>
               buffered_sockets_out blk' = buffered_sockets_out blk \<and>
               tasks blk' = tasks blk \<and>
               (\<forall>bufs'. Buffered_Socket_push sout x bufs = Some bufs' \<longrightarrow>
                  Buffered_Socket_pop sin' bufs' =
                    Some (hd (bufs (bs_buffer sout) @ [x]),
                          bufs'(bs_buffer sout := tl (bufs (bs_buffer sout) @ [x]))))))"
proof (intro conjI impI)
  assume "fst (Block_bind blk a dest d) = Inr ()"
  then show "\<exists>sin sout. map_of (buffered_sockets_in blk) a = Some sin \<and>
               map_of (buffered_sockets_out dest) d = Some sout \<and>
               bs_datatype sin = bs_datatype sout"
    by (rule Block_bind_success_only)
next
  assume h: "map_of (buffered_sockets_in blk) a = Some sin \<and>
               map_of (buffered_sockets_out dest) d = Some sout \<and>
               bs_datatype sin = bs_datatype sout"
  have sup: "supported (bs_datatype sin)"
    using constructed_supported [OF assms, of SIN a sin] h by (simp add: channels_def)
  let ?sin' = "sin\<lparr>bs_buffer := bs_buffer sout\<rparr>"
  let ?blk' = "blk\<lparr>buffered_sockets_in := map_assign a ?sin' (buffered_sockets_in blk)\<rparr>"
  have "Block_bind blk a dest d = (Inr (), ?blk')"
    using Block_bind_success [OF _ sup] h by (simp add: Buffered_Socket_bind_def)
  moreover have "map_of (buffered_sockets_in ?blk') a = Some ?sin'"
    by (simp add: map_of_map_assign)
  moreover have "\<forall>k. k \<noteq> a \<longrightarrow>
                  map_of (buffered_sockets_in ?blk') k = map_of (buffered_sockets_in blk) k"
    by (simp add: map_of_map_assign)
  moreover have "buffered_sockets_out ?blk' = buffered_sockets_out blk \<and> tasks ?blk' = tasks blk"
    by simp
  moreover have "\<forall>bufs'. Buffered_Socket_push sout x bufs = Some bufs' \<longrightarrow>
                  Buffered_Socket_pop ?sin' bufs' =
                    Some (hd (bufs (bs_buffer sout) @ [x]),
                          bufs'(bs_buffer sout := tl (bufs (bs_buffer sout) @ [x])))"
    using push_then_pop [of ?sin' sout x bufs] by simp
  ultimately show "\<exists>blk' sin'. Block_bind blk a dest d = (Inr (), blk') \<and>
               map_of (buffered_sockets_in blk') a = Some sin' \<and>
               sin' = sin\<lparr>bs_buffer := bs_buffer sout\<rparr> \<and>
               (\<forall>k. k \<noteq> a \<longrightarrow>
                  map_of (buffered_sockets_in blk') k = map_of (buffered_sockets_in blk) k) \<and>
               buffered_sockets_out blk' = buffered_sockets_out blk \<and>
               tasks blk' = tasks blk \<and>
               (\<forall>bufs'. Buffered_Socket_push sout x bufs = Some bufs' \<longrightarrow>
                  Buffered_Socket_pop sin' bufs' =
                    Some (hd (bufs (bs_buffer sout) @ [x]),
                          bufs'(bs_buffer sout := tl (bufs (bs_buffer sout) @ [x]))))"
    by blast
qed

lemma example_buffers:
  "bs_buffer double_out = (100, 1)" "bs_buffer sink_in = (200, 0)"
  "Buffered_Socket_push double_out (7 :: int) (\<lambda>b. []) = Some ((\<lambda>b. [])((100, 1) := [7]))"
  "Buffered_Socket_pop sink_in ((\<lambda>b. [])((100, 1) := [7 :: int])) = None"
  by (simp_all add: double_out_def sink_in_def new_Buffered_Socket_def Buffered_Socket_push_def
        Buffered_Socket_pop_def)

theorem Block_bind_connects_witness:
  "constructed sink_block \<and>
   map_of (buffered_sockets_in sink_block) ''in'' = Some sink_in \<and>
   map_of (buffered_sockets_out double_block) ''out'' = Some double_out \<and>
   bs_datatype sink_in = bs_datatype double_out \<and>
   fst (Block_bind sink_block ''in'' double_block ''out'') = Inr () \<and>
   map_of (buffered_sockets_in (snd (Block_bind sink_block ''in'' double_block ''out''))) ''in'' =
     Some (sink_in\<lparr>bs_buffer := (100, 1)\<rparr>) \<and>
   map_of (buffered_sockets_in (snd (Block_bind sink_block ''in'' double_block ''out''))) ''in64'' =
     Some sink_in64 \<and>
   Buffered_Socket_push double_out (7 :: int) (\<lambda>b. []) = Some ((\<lambda>b. [])((100, 1) := [7])) \<and>
   Buffered_Socket_pop sink_in ((\<lambda>b. [])((100, 1) := [7 :: int])) = None \<and>
   Buffered_Socket_pop (sink_in\<lparr>bs_buffer := (100, 1)\<rparr>) ((\<lambda>b. [])((100, 1) := [7 :: int])) =
     Some (7, (\<lambda>b. [])((100, 1) := []))"
proof -
  have eq: "bs_datatype sink_in = bs_datatype double_out"
    by (simp add: example_datatypes)
  have ne: "''in64'' \<noteq> ''in''" by simp
  note all = Block_bind_connects [OF constructed_examples(2),
      where a = "''in''" and dest = double_block and d = "''out''" and sin = sink_in
        and sout = double_out and x = "7 :: int" and bufs = "\<lambda>b. []",
      THEN conjunct2, rule_format]
  show ?thesis
    using all [OF conjI [OF example_lookups(5) conjI [OF example_lookups(3) eq]]]
      constructed_examples(2) eq ne example_buffers
    by (auto simp add: example_lookups)
qed

subsection \<open>The execution loop\<close>

lemma spin_list_all:
  "spin call obs = Some (evs, obs') \<Longrightarrow> (\<And>b. P (Is_done b)) \<Longrightarrow> (\<And>r. P (call r)) \<Longrightarrow>
   list_all P evs"
proof (induction call obs arbitrary: evs obs' rule: spin.induct)
  case (1 call)
  then show ?case by simp
next
  case (2 call d obs)
  note assms = "2.prems"(2,3)
  show ?case
  proof (cases d)
    case True
    then show ?thesis using "2.prems" by auto
  next
    case False
    then obtain r rest where obs: "obs = r # rest"
      using "2.prems" by (cases obs) auto
    show ?thesis
    proof (cases r)
      case True
      then obtain evs1 where s1: "spin call rest = Some (evs1, obs')"
        and e: "evs = Is_done False # call True # evs1"
        using "2.prems"(1) False obs by (auto split: option.splits)
      have "list_all P evs1"
        using "2.IH" [OF False obs True s1] assms by blast
      then show ?thesis
        using e assms by simp
    next
      case r: False
      then show ?thesis
        using "2.prems" False obs by auto
    qed
  qed
qed

lemma for_each_list_all:
  assumes "\<And>b. P (Is_done b)" and "\<And>k r. P (call k r)"
  shows "for_each call ks obs = Some (evs, obs') \<Longrightarrow> list_all P evs"
proof (induction ks arbitrary: obs evs obs')
  case Nil
  then show ?case by simp
next
  case (Cons k ks)
  then obtain e1 o1 e2 where "spin (call k) obs = Some (e1, o1)"
    and "for_each call ks o1 = Some (e2, obs')" and "evs = e1 @ e2"
    by (auto split: option.splits)
  then show ?case
    using Cons.IH spin_list_all [of "call k" obs _ _ P] assms by auto
qed

lemma loop_body_shape:
  assumes "loop_body blk tid obs = Some (evs, obs', broke)"
  shows "\<exists>polls. list_all read_or_pop polls \<and>
    (if broke then evs = polls @ [Is_done True]
     else \<exists>pushes. list_all read_or_push pushes \<and>
            evs = polls @ [Is_done False, Exec tid] @ pushes)"
proof -
  obtain polls obs1 where p: "for_each (\<lambda>k. Pop k tid) (map fst (buffered_sockets_in blk)) obs
      = Some (polls, obs1)"
    using assms by (auto simp add: loop_body_def split: option.splits)
  have lp: "list_all read_or_pop polls"
    by (rule for_each_list_all [OF _ _ p]) simp_all
  obtain d obs2 where o: "obs1 = d # obs2"
    using assms p by (cases obs1) (auto simp add: loop_body_def)
  show ?thesis
  proof (cases d)
    case True
    then show ?thesis
      using assms p o lp by (auto simp add: loop_body_def)
  next
    case False
    then obtain pushes where q: "for_each (\<lambda>k. Push k tid) (map fst (buffered_sockets_out blk)) obs2
        = Some (pushes, obs')" and e: "evs = polls @ [Is_done False, Exec tid] @ pushes"
      and b: "\<not> broke"
      using assms p o by (auto simp add: loop_body_def split: option.splits)
    have "list_all read_or_push pushes"
      by (rule for_each_list_all [OF _ _ q]) simp_all
    then show ?thesis
      using lp e b by auto
  qed
qed

lemma filter_none:
  "list_all P xs \<Longrightarrow> (\<And>x. P x \<Longrightarrow> \<not> Q x) \<Longrightarrow> filter Q xs = []"
  by (induction xs) auto

lemma read_or_pop_not: "read_or_pop e \<Longrightarrow> \<not> is_exec e" "read_or_pop e \<Longrightarrow> \<not> is_stop e"
  by (cases e; simp)+

lemma read_or_push_not: "read_or_push e \<Longrightarrow> \<not> is_exec e" "read_or_push e \<Longrightarrow> \<not> is_stop e"
  by (cases e; simp)+

lemma loop_body_no_stop:
  assumes "loop_body blk tid obs = Some (evs, obs', broke)"
  shows "filter is_stop evs = [] \<and> (broke \<longrightarrow> evs \<noteq> [] \<and> last evs = Is_done True)"
proof -
  obtain polls where lp: "list_all read_or_pop polls"
    and sh: "if broke then evs = polls @ [Is_done True]
     else \<exists>pushes. list_all read_or_push pushes \<and>
            evs = polls @ [Is_done False, Exec tid] @ pushes"
    using loop_body_shape [OF assms] by blast
  have "filter is_stop polls = []"
    using lp by (rule filter_none) (rule read_or_pop_not)
  then show ?thesis
    using sh by (auto split: if_splits dest: filter_none [OF _ read_or_push_not(2)])
qed





lemma while_not_done_trace:
  "while_not_done blk tid obs = Some (evs, obs') \<Longrightarrow>
   filter is_stop evs = [] \<and> evs \<noteq> [] \<and> last evs = Is_done True"
proof (induction blk tid obs arbitrary: evs obs' rule: while_not_done.induct)
  case (1 blk tid)
  then show ?case by simp
next
  case (2 blk tid d obs)
  show ?case
  proof (cases d)
    case True
    then show ?thesis using "2.prems" by auto
  next
    case False
    then obtain e1 o1 broke where lb: "loop_body blk tid obs = Some (e1, o1, broke)"
      using "2.prems" by (auto split: option.splits)
    note ns = loop_body_no_stop [OF lb]
    show ?thesis
    proof (cases broke)
      case True
      then show ?thesis
        using "2.prems" False lb ns by auto
    next
      case nb: False
      then obtain e2 where w: "while_not_done blk tid o1 = Some (e2, obs')"
        and e: "evs = Is_done False # e1 @ e2"
        using "2.prems" False lb by (auto split: option.splits)
      have "filter is_stop e2 = [] \<and> e2 \<noteq> [] \<and> last e2 = Is_done True"
        using "2.IH" [OF False lb refl refl nb w] by simp
      then show ?thesis
        using e ns by simp
    qed
  qed
qed

text \<open>
  C6. When a worker thread returns from \<open>execute_task\<close>, its events are those of the loop,
  which has no \<open>stop()\<close> and ends with a read of the flag that finds it set, then one
  \<open>stop()\<close> on every output channel of the block, then one \<open>stop()\<close> on every input
  channel: every output channel is stopped before any input channel, and every channel of
  both maps is stopped.
\<close>

theorem execute_task_stops_outputs_first:
  assumes "execute_task blk tid obs = Some (evs, obs')"
  shows "\<exists>run. evs = run @ map (Stop SOUT) (map fst (buffered_sockets_out blk))
                        @ map (Stop SIN) (map fst (buffered_sockets_in blk)) \<and>
               filter is_stop run = [] \<and> run \<noteq> [] \<and> last run = Is_done True"
proof -
  obtain run where w: "while_not_done blk tid obs = Some (run, obs')"
    and e: "evs = run @ map (Stop SOUT) (map fst (buffered_sockets_out blk))
                        @ map (Stop SIN) (map fst (buffered_sockets_in blk))"
    using assms by (auto simp add: execute_task_def split: option.splits)
  show ?thesis
    using while_not_done_trace [OF w] e by blast
qed

lemma execute_task_double:
  "execute_task double_block 0 [False, False, False, False, False, False, True] =
     Some ([Is_done False, Is_done False, Pop ''in'' 0 False, Is_done False, Exec 0,
            Is_done False, Push ''out'' 0 False, Is_done True,
            Stop SOUT ''out'', Stop SIN ''in''], [])"
  by code_simp

theorem execute_task_stops_outputs_first_witness:
  "execute_task double_block 0 [False, False, False, False, False, False, True] =
     Some ([Is_done False, Is_done False, Pop ''in'' 0 False, Is_done False, Exec 0,
            Is_done False, Push ''out'' 0 False, Is_done True,
            Stop SOUT ''out'', Stop SIN ''in''], []) \<and>
   filter is_stop [Is_done False, Is_done False, Pop ''in'' 0 False, Is_done False, Exec 0,
            Is_done False, Push ''out'' 0 False, Is_done True,
            Stop SOUT ''out'', Stop SIN ''in''] = [Stop SOUT ''out'', Stop SIN ''in''] \<and>
   map fst (buffered_sockets_out double_block) = [''out''] \<and>
   map fst (buffered_sockets_in double_block) = [''in'']"
  using execute_task_stops_outputs_first [OF execute_task_double] execute_task_double
  by (simp add: double_block_def)

subsection \<open>The channel maps keep their keys in ascending order\<close>

lemma map_assign_key_set: "fst ` set (map_assign k v m) = insert k (fst ` set m)"
  by (simp add: dom_map_of_conv_image_fst [symmetric] map_of_map_assign)

lemma map_assign_sorted:
  "sorted_wrt (<) (map fst m) \<Longrightarrow> sorted_wrt (<) (map fst (map_assign k v m))"
proof (induction m)
  case Nil
  then show ?case by simp
next
  case (Cons p m)
  obtain k' v' where p: "p = (k', v')" by (cases p)
  show ?case
  proof (cases "k = k' \<or> k < k'")
    case True
    then show ?thesis using Cons.prems p by auto
  next
    case False
    then have "k' < k" by auto
    then show ?thesis
      using Cons p False by (auto simp add: map_assign_key_set)
  qed
qed

lemma add_socket_sorted:
  "sorted_wrt (<) (map fst (channels e blk)) \<Longrightarrow>
   sorted_wrt (<) (map fst (channels e (add_socket d k c blk)))"
  by (cases e; cases d) (simp_all add: channels_def add_socket_def map_assign_sorted)

lemma ctor_sockets_sorted:
  "ctor_sockets task idxs blk = Inr (calls, blk') \<Longrightarrow>
   sorted_wrt (<) (map fst (channels e blk)) \<Longrightarrow>
   sorted_wrt (<) (map fst (channels e blk'))"
proof (induction idxs arbitrary: blk calls blk')
  case Nil
  then show ?case by simp
next
  case (Cons i idxs)
  from Cons.prems(1) obtain c1 blk1 c2 where s1: "ctor_socket task i blk = Inr (c1, blk1)"
    and s2: "ctor_sockets task idxs blk1 = Inr (c2, blk')"
    by (rule ctor_sockets_step)
  have "sorted_wrt (<) (map fst (channels e blk1))"
    using s1 Cons.prems(2) ctor_socket_Inr [OF s1]
    by (cases "supported (sck_datatype (sockets task ! i))")
       (auto simp add: ctor_socket_supported ctor_socket_unsupported add_socket_sorted)
  then show ?case
    by (rule Cons.IH [OF s2])
qed

lemma constructed_sorted:
  "constructed blk \<Longrightarrow> sorted_wrt (<) (map fst (channels e blk))"
proof (induction rule: constructed.induct)
  case (by_ctor M a task b n calls blk)
  let ?blk0 = "\<lparr>address = a, name = task_name task, n_threads = n, buffer_size = b,
         threads = unat n,
         tasks = replicate (unat n) (task\<lparr>autoalloc := False, autoexec := False, fast := False\<rparr>),
         buffered_sockets_in = [], buffered_sockets_out = []\<rparr>"
  obtain calls' where loop: "ctor_sockets task [0..<length (sockets task)] ?blk0 = Inr (calls', blk)"
    using Block_ctor_Inr [OF by_ctor.hyps] by blast
  show ?case
    by (rule ctor_sockets_sorted [OF loop]) (cases e; simp add: channels_def)
next
  case (by_bind blk s dest d r blk')
  show ?case
  proof (cases "blk' = blk")
    case True
    then show ?thesis using by_bind.IH by simp
  next
    case False
    then obtain c where "blk' = blk\<lparr>buffered_sockets_in := map_assign s c (buffered_sockets_in blk)\<rparr>"
      using by_bind.hyps(2)
      by (auto simp add: Block_bind_dispatch_eq bind_by_type_eq split: option.splits if_splits)
    then show ?thesis
      using by_bind.IH by (cases e) (simp_all add: channels_def map_assign_sorted)
  qed
qed


end
